theory Spec2Isabelle
  imports Main "HOL-Library.Word"
begin

unbundle bit_operations_syntax

section \<open>Data of the git library, as the program uses it\<close>

text \<open>
  The program is glue over go-git and the Go standard library. Their types are declared
  outside the repository; each is modelled by the fields and methods the program reads.
  Go's \<open>int\<close> is modelled by \<open>int\<close>: the counters below count map entries, commits and
  directory levels, none of which can reach \<open>2^63\<close>.
\<close>

text \<open>
  Modelled from the spec: the enumerated states of go-git's \<open>StatusCode\<close> ("unmodified",
  "modified", "added", "deleted", "renamed", "copied", "untracked", etc.); the type is
  declared in the library.
\<close>

datatype StatusCode =
  Unmodified | Untracked | Modified | Added | Deleted | Renamed | Copied | UpdatedButUnmerged

text \<open>go-git's \<open>FileStatus\<close>: the staged state and the worktree state of one path.\<close>

record FileStatus =
  Staging :: StatusCode
  Worktree :: StatusCode
  Extra :: string

text \<open>
  \<open>git.Status\<close> is a Go map from path to (a pointer to) a file status; the library
  stores no nil pointer in it. A \<open>range\<close> over a Go map yields every entry once, in an
  order the runtime chooses; a snapshot is therefore given to the program as the list of
  its entries in the order of that iteration (the keys of a map are distinct).
\<close>

type_synonym Status = "(string \<times> FileStatus) list"

type_synonym Hash = string

text \<open>
  Go errors: the two sentinels the program compares with, the error \<open>*url.Error\<close> of
  \<open>net/url\<close> (its \<open>Op\<close>, its \<open>URL\<close> and the message of its \<open>Err\<close>), and any other error by its
  message.
\<close>

datatype error =
  ErrStop
  | NoErrAlreadyUpToDate
  | URLError string string string
  | Err string

text \<open>\<open>plumbing.Reference\<close>: \<open>Name()\<close> and \<open>Hash()\<close>.\<close>

record Reference =
  ref_Name :: string
  ref_Hash :: Hash

text \<open>\<open>object.Commit\<close>: the program reads the field \<open>Hash\<close> only.\<close>

record Commit =
  commit_Hash :: Hash
  commit_Message :: string

text \<open>
  \<open>object.CommitIter\<close>: what successive calls of \<open>Next()\<close> return. \<open>IterEOF\<close> is the end of
  the history (\<open>io.EOF\<close>), \<open>IterFail e\<close> a failing read, \<open>IterNext c it\<close> the commit \<open>c\<close>
  followed by the rest of the sequence.
\<close>

datatype CommitIter =
  IterEOF
  | IterFail error
  | IterNext Commit CommitIter

section \<open>gitstuff.go\<close>

subsection \<open>countChanges\<close>

text \<open>
  The body of the \<open>range\<close> loop of \<open>countChanges\<close>, run over the entries in iteration
  order, with the local variable \<open>changes\<close> as accumulator.
\<close>

fun countChanges_loop :: "FileStatus list \<Rightarrow> int \<Rightarrow> int" where
  "countChanges_loop [] changes = changes"
| "countChanges_loop (s # ss) changes =
     countChanges_loop ss
       (if Staging s \<noteq> Unmodified \<or> Worktree s \<noteq> Unmodified then changes + 1 else changes)"

definition countChanges :: "Status \<Rightarrow> int" where
  "countChanges status = countChanges_loop (map snd status) 0"

subsection \<open>countRemoteChanges\<close>

text \<open>
  \<open>CommitIter.ForEach\<close> of go-git: call \<open>cb\<close> on every commit until the sequence ends, a
  read fails or the callback returns an error; the stop sentinel ends the loop without an
  error. (Were the sentinel handed back as the error instead, line 30 of gitstuff.go
  would accept it all the same.) The callback of \<open>countRemoteChanges\<close> is a closure over
  \<open>remoteChanges\<close>, so the callback takes and returns that variable.
\<close>

fun ForEach :: "CommitIter \<Rightarrow> (Commit \<Rightarrow> int \<Rightarrow> error option \<times> int) \<Rightarrow> int \<Rightarrow> error option \<times> int" where
  "ForEach IterEOF cb n = (None, n)"
| "ForEach (IterFail e) cb n = (Some e, n)"
| "ForEach (IterNext c it) cb n =
     (case cb c n of
        (Some e, n') \<Rightarrow> if e = ErrStop then (None, n') else (Some e, n')
      | (None, n') \<Rightarrow> ForEach it cb n')"

text \<open>
  The repository, as \<open>countRemoteChanges\<close> and the walker use it: each method of
  \<open>*git.Repository\<close> is the function from its arguments to what it returns.
\<close>

record Worktree_handle =
  w_Status :: "error + Status"

record RemoteConfig =
  rc_Name :: string
  rc_URLs :: "string list"

datatype HostKeyCallback = DefaultHostKeyCallback | InsecureIgnoreHostKey

record Auth =
  auth_User :: string
  auth_HostKeyCallback :: HostKeyCallback

record FetchOptions =
  fo_RemoteName :: string
  fo_Auth :: Auth

record Repository =
  r_Worktree :: "error + Worktree_handle"
  r_Remotes :: "error + RemoteConfig list"
  r_Fetch :: "FetchOptions \<Rightarrow> error option"
  r_Head :: "error + Reference"
  r_Reference :: "string \<Rightarrow> bool \<Rightarrow> error + Reference"
  r_Log :: "Hash \<Rightarrow> error + CommitIter"

text \<open>The callback passed to \<open>ForEach\<close> (gitstuff.go, lines 21 to 28).\<close>

definition countRemoteChanges_cb :: "Reference \<Rightarrow> Commit \<Rightarrow> int \<Rightarrow> error option \<times> int" where
  "countRemoteChanges_cb headRef c remoteChanges =
     (if commit_Hash c = ref_Hash headRef then (Some ErrStop, remoteChanges)
      else (None, remoteChanges + 1))"

text \<open>
  \<open>countRemoteChanges\<close> returns its Go result \<open>(int, error)\<close> as a sum, and beside it the
  list of hashes it called \<open>r.Log\<close> with: the probe for the history traversals opened.
\<close>

definition countRemoteChanges ::
  "Repository \<Rightarrow> Reference \<Rightarrow> Reference \<Rightarrow> (error + int) \<times> Hash list" where
  "countRemoteChanges r headRef remoteRef =
     (if ref_Hash headRef = ref_Hash remoteRef then (Inr 0, [])
      else
        (case r_Log r (ref_Hash remoteRef) of
           Inl err \<Rightarrow> (Inl err, [ref_Hash remoteRef])
         | Inr cIter \<Rightarrow>
             (case ForEach cIter (countRemoteChanges_cb headRef) 0 of
                (err, remoteChanges) \<Rightarrow>
                  (if err \<noteq> None \<and> err \<noteq> Some ErrStop then (Inl (the err), [ref_Hash remoteRef])
                   else (Inr remoteChanges, [ref_Hash remoteRef])))))"

text \<open>
  The commits an iterator produces before it ends or fails, and whether it ends without
  a failure.
\<close>

fun produced :: "CommitIter \<Rightarrow> Commit list" where
  "produced IterEOF = []"
| "produced (IterFail e) = []"
| "produced (IterNext c it) = c # produced it"

fun finishes :: "CommitIter \<Rightarrow> bool" where
  "finishes IterEOF = True"
| "finishes (IterFail e) = False"
| "finishes (IterNext c it) = finishes it"

text \<open>The iterator over a given list of commits that then ends.\<close>

fun iter_of :: "Commit list \<Rightarrow> CommitIter" where
  "iter_of [] = IterEOF"
| "iter_of (c # cs) = IterNext c (iter_of cs)"

section \<open>The walker (part_000 and part_001)\<close>

subsection \<open>Standard library and agent data\<close>

text \<open>
  \<open>fs.FileMode\<close> is a \<open>uint32\<close>; the mode bits the program tests, with the values of Go's
  \<open>io/fs\<close>, and the mask \<open>ModeType\<close> of the type bits.
\<close>

type_synonym FileMode = "32 word"

definition ModeDir :: FileMode where "ModeDir = push_bit 31 1"
definition ModeSymlink :: FileMode where "ModeSymlink = push_bit 27 1"
definition ModeDevice :: FileMode where "ModeDevice = push_bit 26 1"
definition ModeNamedPipe :: FileMode where "ModeNamedPipe = push_bit 25 1"
definition ModeSocket :: FileMode where "ModeSocket = push_bit 24 1"
definition ModeCharDevice :: FileMode where "ModeCharDevice = push_bit 21 1"
definition ModeIrregular :: FileMode where "ModeIrregular = push_bit 19 1"

definition ModeType :: FileMode where
  "ModeType = ModeDir OR ModeSymlink OR ModeNamedPipe OR ModeSocket OR ModeDevice
              OR ModeCharDevice OR ModeIrregular"

text \<open>\<open>FileMode.IsDir\<close>: \<open>m&ModeDir != 0\<close>.\<close>

definition IsDir :: "FileMode \<Rightarrow> bool" where
  "IsDir m \<longleftrightarrow> m AND ModeDir \<noteq> 0"

text \<open>\<open>os.DirEntry\<close>, as part_000 reads it: \<open>Name()\<close> and \<open>Type()\<close>.\<close>

record DirEntry =
  de_Name :: string
  de_Type :: FileMode

text \<open>
  \<open>fs.FileInfo\<close>, as part_001 reads it: \<open>Name()\<close>, \<open>Mode()\<close> and \<open>IsDir()\<close>, which the
  library documents as the abbreviation of \<open>Mode().IsDir()\<close>.
\<close>

record FileInfo =
  fi_Name :: string
  fi_Mode :: FileMode

definition fi_IsDir :: "FileInfo \<Rightarrow> bool" where
  "fi_IsDir f = IsDir (fi_Mode f)"

text \<open>\<open>url.URL\<close> and \<open>url.Userinfo\<close>; \<open>Username\<close> of the nil user-info is the empty string.\<close>

record Userinfo =
  ui_username :: string
  ui_password :: string
  ui_passwordSet :: bool

record URL =
  url_Scheme :: string
  url_Opaque :: string
  url_User :: "Userinfo option"
  url_Host :: string
  url_Path :: string
  url_RawQuery :: string
  url_Fragment :: string

definition Username :: "Userinfo option \<Rightarrow> string" where
  "Username u = (case u of None \<Rightarrow> [] | Some ui \<Rightarrow> ui_username ui)"

datatype Conn = UnixConn string

datatype Signer = Signer string

subsection \<open>The environment of a run\<close>

text \<open>
  The command line (\<open>maxDepth\<close>, \<open>rootPath\<close>) and every call that leaves the program:
  the filesystem, the SSH agent, go-git and the pure library functions whose code is not
  part of the repository. Each is the function from the call's arguments to its result:
  within one run a call answers the same whenever it is repeated. The results of
  \<open>r_Head\<close>, \<open>r_Reference\<close> and \<open>r_Log\<close> are those after the fetch, the only place where
  the program reads them.
\<close>

record env =
  maxDepth :: int
  rootPath :: string
  PlainOpen :: "string \<Rightarrow> error + Repository"
  Getenv :: "string \<Rightarrow> string"
  net_Dial :: "string \<Rightarrow> string \<Rightarrow> error + Conn"
  agent_Signers :: "Conn \<Rightarrow> error + Signer list"
  NewSSHAgentAuth :: "string \<Rightarrow> error + Auth"
  url_Parse :: "string \<Rightarrow> error + URL"
  ReferenceName_Short :: "string \<Rightarrow> string"
  filepath_Join :: "string \<Rightarrow> string \<Rightarrow> string"
  os_ReadDir :: "string \<Rightarrow> error + DirEntry list"
  ioutil_ReadDir :: "string \<Rightarrow> error + FileInfo list"

subsection \<open>Program state\<close>

record repoStatus =
  Path :: string
  LocalChanges :: int
  RemoteChanges :: int

text \<open>The lines the program writes with \<open>log.Printf\<close>, one constructor per format string.\<close>

datatype log_entry =
  LogVisiting string int
  | LogChecking string
  | LogErrWorktree string error
  | LogErrStatus string error
  | LogErrSigners error
  | LogNoKeys
  | LogErrRemotes string error
  | LogErrParseURL string error
  | LogErrAuth error
  | LogErrFetch string error
  | LogErrHead string error
  | LogErrRemoteRef string error
  | LogErrCount string error
  | LogErrReadDir string error

text \<open>The global \<open>repos\<close> and the log stream.\<close>

record walk_state =
  repos :: "repoStatus list"
  logged :: "log_entry list"

definition logf :: "log_entry \<Rightarrow> walk_state \<Rightarrow> walk_state" where
  "logf l s = s\<lparr>logged := logged s @ [l]\<rparr>"

text \<open>
  A call either returns, or panics (an index out of range), which unwinds every caller
  and ends the process.
\<close>

datatype outcome = Returned walk_state | Panicked walk_state

fun state_of :: "outcome \<Rightarrow> walk_state" where
  "state_of (Returned s) = s"
| "state_of (Panicked s) = s"

text \<open>
  How a stretch of the straight-line code of a visit ends: it goes on with a value, or it
  logs one line and returns, or it panics.
\<close>

datatype 'a stage = Proceed 'a | Abandon log_entry | Panic

subsection \<open>getSignersFromAgent\<close>

definition getSignersFromAgent :: "env \<Rightarrow> error + Signer list" where
  "getSignersFromAgent E =
     (let socket = Getenv E ''SSH_AUTH_SOCK'' in
      case net_Dial E ''unix'' socket of
        Inl err \<Rightarrow> Inl err
      | Inr conn \<Rightarrow>
          (case agent_Signers E conn of
             Inl err \<Rightarrow> Inl err
           | Inr signers \<Rightarrow> Inr signers))"

subsection \<open>Username derivation\<close>

text \<open>\<open>strings.HasPrefix\<close>, and \<open>strings.Split\<close> for a separator of one byte.\<close>

definition HasPrefix :: "string \<Rightarrow> string \<Rightarrow> bool" where
  "HasPrefix s p \<longleftrightarrow> take (length p) s = p"

fun Split_byte :: "string \<Rightarrow> char \<Rightarrow> string list" where
  "Split_byte [] sep = [[]]"
| "Split_byte (c # cs) sep =
     (if c = sep then [] # Split_byte cs sep
      else (case Split_byte cs sep of
              [] \<Rightarrow> [[c]]
            | p # ps \<Rightarrow> (c # p) # ps))"

text \<open>
  The loop over the remotes (part_000 lines 91 to 108, part_001 lines 120 to 137), with
  the variable \<open>username\<close> as accumulator. \<open>URLs[0]\<close> of a remote without URL is an index
  out of range. A URL that does not parse ends the visit with a log line.
\<close>

fun originUsername :: "env \<Rightarrow> string \<Rightarrow> RemoteConfig list \<Rightarrow> string \<Rightarrow> string stage" where
  "originUsername E path [] username = Proceed username"
| "originUsername E path (remote # remotes) username =
     (if rc_Name remote = ''origin'' then
        (case rc_URLs remote of
           [] \<Rightarrow> Panic
         | remoteURL # _ \<Rightarrow>
             if HasPrefix remoteURL ''git@'' then
               (let parts = Split_byte remoteURL (CHR ''@'') in
                originUsername E path remotes
                  (if length parts > 1 then parts ! 0 else username))
             else
               (case url_Parse E remoteURL of
                  Inl err \<Rightarrow> Abandon (LogErrParseURL path err)
                | Inr u \<Rightarrow> originUsername E path remotes (Username (url_User u))))
      else originUsername E path remotes username)"

text \<open>The loop followed by the fallback to \<open>"git"\<close> (lines 90 to 113 of part_000).\<close>

definition deriveUsername :: "env \<Rightarrow> string \<Rightarrow> RemoteConfig list \<Rightarrow> string stage" where
  "deriveUsername E path remotes =
     (case originUsername E path remotes [] of
        Proceed username \<Rightarrow> Proceed (if username = [] then ''git'' else username)
      | Abandon l \<Rightarrow> Abandon l
      | Panic \<Rightarrow> Panic)"

subsection \<open>The visit of an opened repository\<close>

text \<open>
  The two variants have the same text from the line after \<open>git.PlainOpen\<close> up to the
  \<open>return\<close> that closes the repository branch (part_000 lines 56 to 158, part_001 lines
  85 to 187). It is modelled once, in three definitions that follow the statements in
  order. First the lines up to the host key callback (part_000 lines 58 to 121): the
  worktree, the status, \<open>countChanges\<close>, the signers, the remotes, the username and the
  authentication handle.
\<close>

definition prepareAuth :: "env \<Rightarrow> string \<Rightarrow> Repository \<Rightarrow> (int \<times> Auth) stage" where
  "prepareAuth E path r =
     (case r_Worktree r of
        Inl err \<Rightarrow> Abandon (LogErrWorktree path err)
      | Inr w \<Rightarrow>
     (case w_Status w of
        Inl err \<Rightarrow> Abandon (LogErrStatus path err)
      | Inr status \<Rightarrow>
     (let localChanges = countChanges status in
     (case getSignersFromAgent E of
        Inl err \<Rightarrow> Abandon (LogErrSigners err)
      | Inr signers \<Rightarrow>
     (if length signers = 0 then Abandon LogNoKeys
      else
     (case r_Remotes r of
        Inl err \<Rightarrow> Abandon (LogErrRemotes path err)
      | Inr remotes \<Rightarrow>
     (case deriveUsername E path remotes of
        Panic \<Rightarrow> Panic
      | Abandon l \<Rightarrow> Abandon l
      | Proceed username \<Rightarrow>
     (case NewSSHAgentAuth E username of
        Inl err \<Rightarrow> Abandon (LogErrAuth err)
      | Inr auth \<Rightarrow>
          Proceed (localChanges, auth\<lparr>auth_HostKeyCallback := InsecureIgnoreHostKey\<rparr>)))))))))"

text \<open>\<open>plumbing.NewRemoteReferenceName\<close>: \<open>refs/remotes/<remote>/<name>\<close>.\<close>

definition NewRemoteReferenceName :: "string \<Rightarrow> string \<Rightarrow> string" where
  "NewRemoteReferenceName remote name = ''refs/remotes/'' @ remote @ ''/'' @ name"

text \<open>
  Then the fetch, the two references and \<open>countRemoteChanges\<close> (part_000 lines 123 to
  153). The stage goes on with \<open>remoteChanges\<close>.
\<close>

definition fetchAndCompare :: "env \<Rightarrow> string \<Rightarrow> Repository \<Rightarrow> Auth \<Rightarrow> int stage" where
  "fetchAndCompare E path r auth =
     (let err = r_Fetch r \<lparr>fo_RemoteName = ''origin'', fo_Auth = auth\<rparr> in
      if err \<noteq> None \<and> err \<noteq> Some NoErrAlreadyUpToDate then Abandon (LogErrFetch path (the err))
      else
     (case r_Head r of
        Inl err \<Rightarrow> Abandon (LogErrHead path err)
      | Inr headRef \<Rightarrow>
     (case r_Reference r
             (NewRemoteReferenceName ''origin'' (ReferenceName_Short E (ref_Name headRef))) True of
        Inl err \<Rightarrow> Abandon (LogErrRemoteRef path err)
      | Inr remoteRef \<Rightarrow>
     (case fst (countRemoteChanges r headRef remoteRef) of
        Inl err \<Rightarrow> Abandon (LogErrCount path err)
      | Inr remoteChanges \<Rightarrow> Proceed remoteChanges))))"

text \<open>
  The whole repository branch: the line "Checking path", the two stages, and the
  \<open>append\<close> to \<open>repos\<close> (part_000 line 155). Every abandoned stage is a \<open>return\<close> of
  \<open>visitAndCheckGit\<close>.
\<close>

definition checkRepo :: "env \<Rightarrow> string \<Rightarrow> Repository \<Rightarrow> walk_state \<Rightarrow> outcome" where
  "checkRepo E path r s =
     (let s1 = logf (LogChecking path) s in
      case prepareAuth E path r of
        Panic \<Rightarrow> Panicked s1
      | Abandon l \<Rightarrow> Returned (logf l s1)
      | Proceed (localChanges, auth) \<Rightarrow>
          (case fetchAndCompare E path r auth of
             Panic \<Rightarrow> Panicked s1
           | Abandon l \<Rightarrow> Returned (logf l s1)
           | Proceed remoteChanges \<Rightarrow>
               Returned (s1\<lparr>repos := repos s1 @
                 [\<lparr>Path = path, LocalChanges = localChanges, RemoteChanges = remoteChanges\<rparr>]\<rparr>)))"

subsection \<open>visitAndCheckGit of part_000\<close>

text \<open>
  \<open>visitAndCheckGit\<close> and its loop over the directory entries (part_000 lines 168 to
  172), which calls it at \<open>depth+1\<close>. A panic of a nested call ends the loop.
\<close>

function visitAndCheckGit :: "env \<Rightarrow> string \<Rightarrow> int \<Rightarrow> walk_state \<Rightarrow> outcome"
  and visitFiles :: "env \<Rightarrow> string \<Rightarrow> int \<Rightarrow> DirEntry list \<Rightarrow> walk_state \<Rightarrow> outcome"
where
  "visitAndCheckGit E path depth s =
     (if depth > maxDepth E then Returned s
      else
        (case PlainOpen E path of
           Inr r \<Rightarrow> checkRepo E path r (logf (LogVisiting path depth) s)
         | Inl _ \<Rightarrow>
             (case os_ReadDir E path of
                Inl err \<Rightarrow>
                  Returned (logf (LogErrReadDir path err) (logf (LogVisiting path depth) s))
              | Inr files \<Rightarrow> visitFiles E path depth files (logf (LogVisiting path depth) s))))"
| "visitFiles E path depth [] s = Returned s"
| "visitFiles E path depth (f # files) s =
     (if IsDir (de_Type f) \<and> de_Type f AND ModeSymlink \<noteq> ModeSymlink then
        (case visitAndCheckGit E (filepath_Join E path (de_Name f)) (depth + 1) s of
           Returned s' \<Rightarrow> visitFiles E path depth files s'
         | Panicked s' \<Rightarrow> Panicked s')
      else visitFiles E path depth files s)"
  by pat_completeness auto
termination
  by (relation "measures
        [\<lambda>x. case x of
                Inl (E, path, depth, s) \<Rightarrow> 2 * nat (maxDepth E + 1 - depth) + 1
              | Inr (E, path, depth, files, s) \<Rightarrow> 2 * nat (maxDepth E - depth) + 2,
         \<lambda>x. case x of
                Inl (E, path, depth, s) \<Rightarrow> 0
              | Inr (E, path, depth, files, s) \<Rightarrow> length files]")
     auto

subsection \<open>visitAndCheckGit of part_001\<close>

text \<open>
  The same function in part_001: the directory is listed with \<open>ioutil.ReadDir\<close> and the
  entries are tested with \<open>f.IsDir()\<close> and \<open>f.Mode()\<close> (part_001 lines 191 to 201).
\<close>

function visitAndCheckGit1 :: "env \<Rightarrow> string \<Rightarrow> int \<Rightarrow> walk_state \<Rightarrow> outcome"
  and visitFiles1 :: "env \<Rightarrow> string \<Rightarrow> int \<Rightarrow> FileInfo list \<Rightarrow> walk_state \<Rightarrow> outcome"
where
  "visitAndCheckGit1 E path depth s =
     (if depth > maxDepth E then Returned s
      else
        (case PlainOpen E path of
           Inr r \<Rightarrow> checkRepo E path r (logf (LogVisiting path depth) s)
         | Inl _ \<Rightarrow>
             (case ioutil_ReadDir E path of
                Inl err \<Rightarrow>
                  Returned (logf (LogErrReadDir path err) (logf (LogVisiting path depth) s))
              | Inr files \<Rightarrow> visitFiles1 E path depth files (logf (LogVisiting path depth) s))))"
| "visitFiles1 E path depth [] s = Returned s"
| "visitFiles1 E path depth (f # files) s =
     (if fi_IsDir f \<and> fi_Mode f AND ModeSymlink \<noteq> ModeSymlink then
        (case visitAndCheckGit1 E (filepath_Join E path (fi_Name f)) (depth + 1) s of
           Returned s' \<Rightarrow> visitFiles1 E path depth files s'
         | Panicked s' \<Rightarrow> Panicked s')
      else visitFiles1 E path depth files s)"
  by pat_completeness auto
termination
  by (relation "measures
        [\<lambda>x. case x of
                Inl (E, path, depth, s) \<Rightarrow> 2 * nat (maxDepth E + 1 - depth) + 1
              | Inr (E, path, depth, files, s) \<Rightarrow> 2 * nat (maxDepth E - depth) + 2,
         \<lambda>x. case x of
                Inl (E, path, depth, s) \<Rightarrow> 0
              | Inr (E, path, depth, files, s) \<Rightarrow> length files]")
     auto

subsection \<open>main\<close>

text \<open>
  \<open>main\<close> starts the walk at \<open>rootPath\<close> and depth 0 with the empty \<open>repos\<close>; the report
  it then prints is the list \<open>repos\<close> in order.
\<close>

definition initial_state :: walk_state where
  "initial_state = \<lparr>repos = [], logged = []\<rparr>"

definition main_walk :: "env \<Rightarrow> outcome" where
  "main_walk E = visitAndCheckGit E (rootPath E) 0 initial_state"

definition main_walk1 :: "env \<Rightarrow> outcome" where
  "main_walk1 E = visitAndCheckGit1 E (rootPath E) 0 initial_state"

text \<open>
  The records \<open>main\<close> prints once the walk has returned (part_000 lines 191 to 195,
  part_001 lines 220 to 224). A panic ends the process before that loop: nothing is
  printed.
\<close>

definition main_report :: "env \<Rightarrow> repoStatus list option" where
  "main_report E = (case main_walk E of Returned s \<Rightarrow> Some (repos s) | Panicked s \<Rightarrow> None)"

definition main_report1 :: "env \<Rightarrow> repoStatus list option" where
  "main_report1 E = (case main_walk1 E of Returned s \<Rightarrow> Some (repos s) | Panicked s \<Rightarrow> None)"

section \<open>Notions the properties are stated with\<close>

subsection \<open>The steps of a repository visit\<close>

text \<open>
  The steps of the processing sequence of an opened repository, in the order the
  specification lists them, and the step that fails first: a step is asked only when the
  steps before it have succeeded, on the values they returned. \<open>None\<close> means that no
  step fails. Taking the first configured URL of \<open>origin\<close> is a step of the sequence
  (\<open>OriginFirstURL\<close>): it fails when \<open>origin\<close> has no URL.
\<close>

datatype step =
  WorktreeAccess | StatusRead | SignerRetrieval | EmptySignerSet | RemoteLookup
  | OriginFirstURL | URLParse
  | AuthConstruction | FetchOrigin | HeadResolution | RemoteRefResolution | HistoryWalk

definition failing_step_after_fetch :: "env \<Rightarrow> Repository \<Rightarrow> step option" where
  "failing_step_after_fetch E r =
     (case r_Head r of
        Inl _ \<Rightarrow> Some HeadResolution
      | Inr headRef \<Rightarrow>
     (case r_Reference r
             (NewRemoteReferenceName ''origin'' (ReferenceName_Short E (ref_Name headRef))) True of
        Inl _ \<Rightarrow> Some RemoteRefResolution
      | Inr remoteRef \<Rightarrow>
     (case fst (countRemoteChanges r headRef remoteRef) of
        Inl _ \<Rightarrow> Some HistoryWalk
      | Inr _ \<Rightarrow> None)))"

definition failing_step :: "env \<Rightarrow> string \<Rightarrow> Repository \<Rightarrow> step option" where
  "failing_step E path r =
     (case r_Worktree r of
        Inl _ \<Rightarrow> Some WorktreeAccess
      | Inr w \<Rightarrow>
     (case w_Status w of
        Inl _ \<Rightarrow> Some StatusRead
      | Inr _ \<Rightarrow>
     (case getSignersFromAgent E of
        Inl _ \<Rightarrow> Some SignerRetrieval
      | Inr signers \<Rightarrow>
     (if signers = [] then Some EmptySignerSet
      else
     (case r_Remotes r of
        Inl _ \<Rightarrow> Some RemoteLookup
      | Inr remotes \<Rightarrow>
     (case deriveUsername E path remotes of
        Abandon _ \<Rightarrow> Some URLParse
      | Panic \<Rightarrow> Some OriginFirstURL
      | Proceed username \<Rightarrow>
     (case NewSSHAgentAuth E username of
        Inl _ \<Rightarrow> Some AuthConstruction
      | Inr auth \<Rightarrow>
     (case r_Fetch r \<lparr>fo_RemoteName = ''origin'',
                      fo_Auth = auth\<lparr>auth_HostKeyCallback := InsecureIgnoreHostKey\<rparr>\<rparr> of
        None \<Rightarrow> failing_step_after_fetch E r
      | Some e \<Rightarrow>
          if e = NoErrAlreadyUpToDate then failing_step_after_fetch E r
          else Some FetchOrigin))))))))"

text \<open>
  The step whose failure a log line reports; the program has no log line for
  \<open>OriginFirstURL\<close>.
\<close>

fun log_step :: "log_entry \<Rightarrow> step option" where
  "log_step (LogErrWorktree p e) = Some WorktreeAccess"
| "log_step (LogErrStatus p e) = Some StatusRead"
| "log_step (LogErrSigners e) = Some SignerRetrieval"
| "log_step LogNoKeys = Some EmptySignerSet"
| "log_step (LogErrRemotes p e) = Some RemoteLookup"
| "log_step (LogErrParseURL p e) = Some URLParse"
| "log_step (LogErrAuth e) = Some AuthConstruction"
| "log_step (LogErrFetch p e) = Some FetchOrigin"
| "log_step (LogErrHead p e) = Some HeadResolution"
| "log_step (LogErrRemoteRef p e) = Some RemoteRefResolution"
| "log_step (LogErrCount p e) = Some HistoryWalk"
| "log_step (LogVisiting p d) = None"
| "log_step (LogChecking p) = None"
| "log_step (LogErrReadDir p e) = None"

subsection \<open>Visits\<close>

text \<open>
  The visits of a run, in order: the paths and depths of its "Visiting path" lines, which
  \<open>visitAndCheckGit\<close> writes on every call that passes the depth check.
\<close>

fun visits :: "log_entry list \<Rightarrow> (string \<times> int) list" where
  "visits [] = []"
| "visits (LogVisiting p d # ls) = (p, d) # visits ls"
| "visits (l # ls) = visits ls"

text \<open>Every visit a state shows is a visit of a path in \<open>R\<close>.\<close>

definition visits_within :: "(string \<Rightarrow> bool) \<Rightarrow> walk_state \<Rightarrow> bool" where
  "visits_within R s = list_all (\<lambda>v. R (fst v)) (visits (logged s))"

text \<open>
  The paths that can be arrived at from \<open>root\<close> through entries that are directories and
  not symbolic links, as \<open>os.ReadDir\<close> (part_000) and as \<open>ioutil.ReadDir\<close> (part_001)
  report them.
\<close>

inductive reach :: "env \<Rightarrow> string \<Rightarrow> string \<Rightarrow> bool" for E root where
  reach_root: "reach E root root"
| reach_entry:
    "reach E root p \<Longrightarrow> os_ReadDir E p = Inr files \<Longrightarrow> f \<in> set files \<Longrightarrow>
     IsDir (de_Type f) \<Longrightarrow> de_Type f AND ModeSymlink \<noteq> ModeSymlink \<Longrightarrow>
     reach E root (filepath_Join E p (de_Name f))"

inductive reach1 :: "env \<Rightarrow> string \<Rightarrow> string \<Rightarrow> bool" for E root where
  reach1_root: "reach1 E root root"
| reach1_entry:
    "reach1 E root p \<Longrightarrow> ioutil_ReadDir E p = Inr files \<Longrightarrow> f \<in> set files \<Longrightarrow>
     fi_IsDir f \<Longrightarrow> fi_Mode f AND ModeSymlink \<noteq> ModeSymlink \<Longrightarrow>
     reach1 E root (filepath_Join E p (fi_Name f))"

subsection \<open>Comparing the two variants\<close>

text \<open>
  The two listing calls agree on a directory when both fail, or both succeed with the
  same names in the same order, \<open>Type()\<close> of each entry being the type bits of \<open>Mode()\<close>.
\<close>

definition entries_agree :: "DirEntry list \<Rightarrow> FileInfo list \<Rightarrow> bool" where
  "entries_agree des fis =
     list_all2 (\<lambda>d f. de_Name d = fi_Name f \<and> de_Type d = fi_Mode f AND ModeType) des fis"

definition listings_agree :: "env \<Rightarrow> bool" where
  "listings_agree E =
     (\<forall>path. case os_ReadDir E path of
               Inl _ \<Rightarrow> (case ioutil_ReadDir E path of Inl _ \<Rightarrow> True | Inr _ \<Rightarrow> False)
             | Inr des \<Rightarrow>
                 (case ioutil_ReadDir E path of
                    Inl _ \<Rightarrow> False
                  | Inr fis \<Rightarrow> entries_agree des fis))"

text \<open>
  Two states show the same visits in the same order and hold the same result records in
  the same order; two runs are the same walk when both return or both panic, in such
  states.
\<close>

definition same_visits_and_records :: "walk_state \<Rightarrow> walk_state \<Rightarrow> bool" where
  "same_visits_and_records a b \<longleftrightarrow>
     visits (logged a) = visits (logged b) \<and> repos a = repos b"

definition same_walk :: "outcome \<Rightarrow> outcome \<Rightarrow> bool" where
  "same_walk a b =
     ((case a of Returned _ \<Rightarrow> (case b of Returned _ \<Rightarrow> True | Panicked _ \<Rightarrow> False)
               | Panicked _ \<Rightarrow> (case b of Returned _ \<Rightarrow> False | Panicked _ \<Rightarrow> True))
      \<and> same_visits_and_records (state_of a) (state_of b))"

section \<open>Example inputs\<close>

definition ex_status :: Status where
  "ex_status =
     [(''a.go'', \<lparr>Staging = Modified, Worktree = Unmodified, Extra = []\<rparr>),
      (''b.go'', \<lparr>Staging = Unmodified, Worktree = Unmodified, Extra = []\<rparr>),
      (''c.go'', \<lparr>Staging = Untracked, Worktree = Untracked, Extra = []\<rparr>)]"

definition ex_commit :: "Hash \<Rightarrow> Commit" where
  "ex_commit h = \<lparr>commit_Hash = h, commit_Message = []\<rparr>"

definition ex_ref :: "string \<Rightarrow> Hash \<Rightarrow> Reference" where
  "ex_ref n h = \<lparr>ref_Name = n, ref_Hash = h\<rparr>"

text \<open>
  A repository on branch \<open>main\<close> at commit R1 whose remote-tracking branch is at R3, with
  the history R3, R2, R1, two changed files and the given URL of \<open>origin\<close>.
\<close>

definition ex_repo :: "string \<Rightarrow> Repository" where
  "ex_repo url =
     \<lparr>r_Worktree = Inr \<lparr>w_Status = Inr ex_status\<rparr>,
      r_Remotes = Inr [\<lparr>rc_Name = ''origin'', rc_URLs = [url]\<rparr>],
      r_Fetch = (\<lambda>opts. None),
      r_Head = Inr (ex_ref ''refs/heads/main'' ''R1''),
      r_Reference = (\<lambda>name resolved.
         if name = ''refs/remotes/origin/main'' then Inr (ex_ref name ''R3'')
         else Inl (Err ''reference not found'')),
      r_Log = (\<lambda>h.
         if h = ''R3'' then Inr (iter_of [ex_commit ''R3'', ex_commit ''R2'', ex_commit ''R1''])
         else Inl (Err ''object not found''))\<rparr>"

text \<open>
  The tree \<open>root/{README, a/.git, b/c/.git, d, link}\<close>: \<open>README\<close> is a regular file and
  \<open>link\<close> a symbolic link to a directory that holds a repository. Each directory is given
  by the names and \<open>lstat\<close> modes of its entries, in the order of their names.
\<close>

definition ex_dir_mode :: FileMode where "ex_dir_mode = ModeDir OR 493"
definition ex_file_mode :: FileMode where "ex_file_mode = 420"
definition ex_link_mode :: FileMode where "ex_link_mode = ModeSymlink OR 511"

definition ex_tree :: "string \<Rightarrow> error + (string \<times> FileMode) list" where
  "ex_tree path =
     (if path = ''root'' then
        Inr [(''README'', ex_file_mode), (''a'', ex_dir_mode), (''b'', ex_dir_mode),
             (''d'', ex_dir_mode), (''link'', ex_link_mode)]
      else if path = ''root/b'' then Inr [(''c'', ex_dir_mode)]
      else if path = ''root/d'' then Inr []
      else Inl (Err ''no such file or directory''))"

text \<open>
  \<open>url.Parse\<close> is a function of \<open>net/url\<close>; the examples give it three URLs, and these
  are its answers to them: a URL with user-info, a URL without, and a URL without scheme
  whose first path segment holds a colon, which it refuses. No other URL reaches it in
  the examples.
\<close>

definition ex_url_Parse :: "string \<Rightarrow> error + URL" where
  "ex_url_Parse rawURL =
     (if rawURL = ''ssh://alice@example.com/repo.git'' then
        Inr \<lparr>url_Scheme = ''ssh'', url_Opaque = [],
             url_User = Some \<lparr>ui_username = ''alice'', ui_password = [],
                               ui_passwordSet = False\<rparr>,
             url_Host = ''example.com'', url_Path = ''/repo.git'', url_RawQuery = [],
             url_Fragment = []\<rparr>
      else if rawURL = ''https://github.com/org/repo.git'' then
        Inr \<lparr>url_Scheme = ''https'', url_Opaque = [], url_User = None,
             url_Host = ''github.com'', url_Path = ''/org/repo.git'', url_RawQuery = [],
             url_Fragment = []\<rparr>
      else if rawURL = ''alice@example.com:repo.git'' then
        Inl (URLError ''parse'' rawURL ''first path segment in URL cannot contain colon'')
      else Inl (URLError ''parse'' rawURL ''not a URL of the examples''))"

definition ex_env :: env where
  "ex_env =
     \<lparr>maxDepth = 4,
      rootPath = ''root'',
      PlainOpen = (\<lambda>path.
         if path = ''root/a'' \<or> path = ''root/b/c'' \<or> path = ''root/link''
         then Inr (ex_repo ''git@github.com:org/repo.git'')
         else Inl (Err ''repository does not exist'')),
      Getenv = (\<lambda>name. ''/tmp/agent.sock''),
      net_Dial = (\<lambda>network address. Inr (UnixConn address)),
      agent_Signers = (\<lambda>conn. Inr [Signer ''key'']),
      NewSSHAgentAuth = (\<lambda>user.
         Inr \<lparr>auth_User = user, auth_HostKeyCallback = DefaultHostKeyCallback\<rparr>),
      url_Parse = ex_url_Parse,
      ReferenceName_Short = (\<lambda>name. if HasPrefix name ''refs/heads/'' then drop 11 name else name),
      filepath_Join = (\<lambda>dir name. dir @ ''/'' @ name),
      os_ReadDir = (\<lambda>path.
         map_sum id (map (\<lambda>(n, m). \<lparr>de_Name = n, de_Type = m AND ModeType\<rparr>)) (ex_tree path)),
      ioutil_ReadDir = (\<lambda>path.
         map_sum id (map (\<lambda>(n, m). \<lparr>fi_Name = n, fi_Mode = m\<rparr>)) (ex_tree path))\<rparr>"

text \<open>
  A directory \<open>root\<close> that can be read but not searched, holding the directory \<open>sub\<close>:
  \<open>os.ReadDir\<close> takes the entry and its type from the directory stream, while
  \<open>ioutil.ReadDir\<close> calls \<open>lstat\<close> on every entry and fails as soon as one \<open>lstat\<close> fails.
  Nothing below \<open>root\<close> can be opened.
\<close>

definition ex_env_unsearchable :: env where
  "ex_env_unsearchable =
     ex_env
       \<lparr>PlainOpen := (\<lambda>path. Inl (Err ''repository does not exist'')),
        os_ReadDir := (\<lambda>path.
           if path = ''root'' then Inr [\<lparr>de_Name = ''sub'', de_Type = ModeDir\<rparr>]
           else Inl (Err ''permission denied'')),
        ioutil_ReadDir := (\<lambda>path. Inl (Err ''permission denied''))\<rparr>"

text \<open>
  The same tree when the fetch of \<open>root/a\<close> fails, when it reports that the repository
  is already up to date, and when the depth limit is 0.
\<close>

definition ex_repo_fetch :: "error option \<Rightarrow> Repository" where
  "ex_repo_fetch result =
     (ex_repo ''git@github.com:org/repo.git'')\<lparr>r_Fetch := (\<lambda>opts. result)\<rparr>"

definition ex_env_fetch_fails :: env where
  "ex_env_fetch_fails =
     ex_env
       \<lparr>PlainOpen := (\<lambda>path.
          if path = ''root/a'' then Inr (ex_repo_fetch (Some (Err ''ssh: handshake failed'')))
          else if path = ''root/b/c'' then Inr (ex_repo ''git@github.com:org/repo.git'')
          else Inl (Err ''repository does not exist''))\<rparr>"

text \<open>
  The same tree when the configuration of \<open>root/b/c\<close> has a remote \<open>origin\<close> without URL
  (a section \<open>[remote "origin"]\<close> with no \<open>url\<close> line).
\<close>

definition ex_repo_origin_without_url :: Repository where
  "ex_repo_origin_without_url =
     (ex_repo ''git@github.com:org/repo.git'')
       \<lparr>r_Remotes := Inr [\<lparr>rc_Name = ''origin'', rc_URLs = []\<rparr>]\<rparr>"

definition ex_env_origin_without_url :: env where
  "ex_env_origin_without_url =
     ex_env
       \<lparr>PlainOpen := (\<lambda>path.
          if path = ''root/a'' then Inr (ex_repo ''git@github.com:org/repo.git'')
          else if path = ''root/b/c'' then Inr ex_repo_origin_without_url
          else Inl (Err ''repository does not exist''))\<rparr>"

definition ex_env_depth0 :: env where
  "ex_env_depth0 = ex_env\<lparr>maxDepth := 0\<rparr>"

section \<open>Properties of gitstuff.go\<close>

lemma countChanges_loop_acc:
  "countChanges_loop ss n = n + int (length (filter (\<lambda>s. Staging s \<noteq> Unmodified \<or> Worktree s \<noteq> Unmodified) ss))"
  by (induction ss arbitrary: n) auto

lemma changed_paths_eq:
  assumes "distinct (map fst es)"
  shows "{p. \<exists>s. map_of es p = Some s \<and> P s} = fst ` set (filter (\<lambda>e. P (snd e)) es)"
  using assms by (force simp: image_iff)

lemma card_changed_paths:
  assumes d: "distinct (map fst es)"
  shows "card {p. \<exists>s. map_of es p = Some s \<and> P s} = length (filter P (map snd es))"
proof -
  have inj: "inj_on fst (set (filter (\<lambda>e. P (snd e)) es))"
    using d by (auto simp: distinct_map intro: inj_on_subset)
  have dist: "distinct (filter (\<lambda>e. P (snd e)) es)"
    using d by (auto simp: distinct_map)
  have "card {p. \<exists>s. map_of es p = Some s \<and> P s} = card (fst ` set (filter (\<lambda>e. P (snd e)) es))"
    by (simp only: changed_paths_eq[OF d])
  also have "\<dots> = card (set (filter (\<lambda>e. P (snd e)) es))"
    by (rule card_image[OF inj])
  also have "\<dots> = length (filter (\<lambda>e. P (snd e)) es)"
    by (rule distinct_card[OF dist])
  also have "\<dots> = length (filter P (map snd es))"
    by (simp add: filter_map comp_def)
  finally show ?thesis .
qed

text \<open>
  Claim C1. Whatever order the \<open>range\<close> statement enumerates a status snapshot \<open>S\<close> in,
  \<open>countChanges\<close> returns the number of paths of \<open>S\<close> whose staged state or worktree state
  is not \<open>Unmodified\<close>; the result is therefore the same for every iteration order, and it
  is 0 on the empty snapshot.
\<close>

theorem countChanges_counts_changed_entries:
  "countChanges [] = 0 \<and>
   (distinct (map fst status) \<and> map_of status = S \<longrightarrow>
      countChanges status =
        int (card {p. \<exists>s. S p = Some s \<and> (Staging s \<noteq> Unmodified \<or> Worktree s \<noteq> Unmodified)}))"
proof (intro conjI impI)
  show "countChanges [] = 0"
    by (simp add: countChanges_def)
next
  assume h: "distinct (map fst status) \<and> map_of status = S"
  then have d: "distinct (map fst status)" and m: "map_of status = S"
    by simp_all
  show "countChanges status =
        int (card {p. \<exists>s. S p = Some s \<and> (Staging s \<noteq> Unmodified \<or> Worktree s \<noteq> Unmodified)})"
    unfolding m[symmetric] card_changed_paths[OF d] countChanges_def countChanges_loop_acc
    by simp
qed

theorem countChanges_counts_changed_entries_witness:
  "distinct (map fst ex_status) \<and> map_of (rev ex_status) = map_of ex_status \<and>
   countChanges ex_status = 2 \<and> countChanges (rev ex_status) = 2 \<and>
   card {p. \<exists>s. map_of ex_status p = Some s \<and> (Staging s \<noteq> Unmodified \<or> Worktree s \<noteq> Unmodified)} = 2"
proof -
  have d: "distinct (map fst ex_status)"
    by (simp add: ex_status_def)
  have d': "distinct (map fst (rev ex_status))"
    by (simp add: ex_status_def)
  have m: "map_of (rev ex_status) = map_of ex_status"
    by (rule ext) (simp add: ex_status_def)
  have c: "countChanges ex_status = 2" "countChanges (rev ex_status) = 2"
    by (simp_all add: ex_status_def countChanges_def)
  from countChanges_counts_changed_entries[of ex_status "map_of ex_status"] d c
  have "card {p. \<exists>s. map_of ex_status p = Some s \<and> (Staging s \<noteq> Unmodified \<or> Worktree s \<noteq> Unmodified)} = 2"
    by simp
  with d m c show ?thesis by simp
qed

lemma ForEach_found:
  "ref_Hash headRef \<in> commit_Hash ` set (produced it) \<Longrightarrow>
   ForEach it (countRemoteChanges_cb headRef) n =
     (None, n + int (length (takeWhile (\<lambda>c. commit_Hash c \<noteq> ref_Hash headRef) (produced it))))"
  by (induction it arbitrary: n) (auto simp: countRemoteChanges_cb_def)

lemma ForEach_finishes:
  "finishes it \<Longrightarrow> ref_Hash headRef \<notin> commit_Hash ` set (produced it) \<Longrightarrow>
   ForEach it (countRemoteChanges_cb headRef) n = (None, n + int (length (produced it)))"
  by (induction it arbitrary: n) (auto simp: countRemoteChanges_cb_def)

text \<open>
  Claim C2. When the two hashes differ and the local HEAD is among the commits the
  iterator started at the remote reference produces, \<open>countRemoteChanges\<close> returns the
  number of commits produced before the first one whose hash is the local HEAD's; that
  commit is not counted. For the history R3, R2, R1 with local HEAD R1 the result is 2.
\<close>

theorem countRemoteChanges_stops_at_local_head:
  assumes "ref_Hash headRef \<noteq> ref_Hash remoteRef"
    and "r_Log r (ref_Hash remoteRef) = Inr cIter"
    and "ref_Hash headRef \<in> commit_Hash ` set (produced cIter)"
  shows "fst (countRemoteChanges r headRef remoteRef) =
           Inr (int (length (takeWhile (\<lambda>c. commit_Hash c \<noteq> ref_Hash headRef) (produced cIter))))"
  using assms by (simp add: countRemoteChanges_def ForEach_found)

theorem countRemoteChanges_stops_at_local_head_witness:
  "ref_Hash (ex_ref ''refs/heads/main'' ''R1'') \<noteq> ref_Hash (ex_ref ''refs/remotes/origin/main'' ''R3'') \<and>
   r_Log (ex_repo []) ''R3'' = Inr (iter_of [ex_commit ''R3'', ex_commit ''R2'', ex_commit ''R1'']) \<and>
   fst (countRemoteChanges (ex_repo []) (ex_ref ''refs/heads/main'' ''R1'')
          (ex_ref ''refs/remotes/origin/main'' ''R3'')) = Inr 2"
  using countRemoteChanges_stops_at_local_head
          [of "ex_ref ''refs/heads/main'' ''R1''" "ex_ref ''refs/remotes/origin/main'' ''R3''"
              "ex_repo []" "iter_of [ex_commit ''R3'', ex_commit ''R2'', ex_commit ''R1'']"]
  by (simp add: ex_ref_def ex_repo_def ex_commit_def)

text \<open>
  Claim C3. When the two references have the same hash, \<open>countRemoteChanges\<close> returns 0
  without error and has called \<open>r.Log\<close> not once: no iterator is opened.
\<close>

theorem countRemoteChanges_equal_hashes:
  assumes "ref_Hash headRef = ref_Hash remoteRef"
  shows "countRemoteChanges r headRef remoteRef = (Inr 0, [])"
  using assms by (simp add: countRemoteChanges_def)

theorem countRemoteChanges_equal_hashes_witness:
  "ref_Hash (ex_ref ''refs/heads/main'' ''R3'') = ref_Hash (ex_ref ''refs/remotes/origin/main'' ''R3'') \<and>
   countRemoteChanges (ex_repo []) (ex_ref ''refs/heads/main'' ''R3'')
     (ex_ref ''refs/remotes/origin/main'' ''R3'') = (Inr 0, [])"
  using countRemoteChanges_equal_hashes
          [of "ex_ref ''refs/heads/main'' ''R3''" "ex_ref ''refs/remotes/origin/main'' ''R3''" "ex_repo []"]
  by (simp add: ex_ref_def)

text \<open>
  Claim C4. When the two hashes differ and the iterator started at the remote reference
  ends without a failure and without producing the local HEAD, \<open>countRemoteChanges\<close>
  returns, without error, the number of all commits the iterator produced.
\<close>

theorem countRemoteChanges_local_head_not_met:
  assumes "ref_Hash headRef \<noteq> ref_Hash remoteRef"
    and "r_Log r (ref_Hash remoteRef) = Inr cIter"
    and "finishes cIter"
    and "ref_Hash headRef \<notin> commit_Hash ` set (produced cIter)"
  shows "fst (countRemoteChanges r headRef remoteRef) = Inr (int (length (produced cIter)))"
  using assms by (simp add: countRemoteChanges_def ForEach_finishes)

theorem countRemoteChanges_local_head_not_met_witness:
  "ref_Hash (ex_ref ''refs/heads/main'' ''L1'') \<noteq> ref_Hash (ex_ref ''refs/remotes/origin/main'' ''R3'') \<and>
   r_Log (ex_repo []) ''R3'' = Inr (iter_of [ex_commit ''R3'', ex_commit ''R2'', ex_commit ''R1'']) \<and>
   finishes (iter_of [ex_commit ''R3'', ex_commit ''R2'', ex_commit ''R1'']) \<and>
   fst (countRemoteChanges (ex_repo []) (ex_ref ''refs/heads/main'' ''L1'')
          (ex_ref ''refs/remotes/origin/main'' ''R3'')) = Inr 3"
  using countRemoteChanges_local_head_not_met
          [of "ex_ref ''refs/heads/main'' ''L1''" "ex_ref ''refs/remotes/origin/main'' ''R3''"
              "ex_repo []" "iter_of [ex_commit ''R3'', ex_commit ''R2'', ex_commit ''R1'']"]
  by (simp add: ex_ref_def ex_repo_def ex_commit_def)

section \<open>Properties of the walker\<close>

text \<open>
  The equations of \<open>visitAndCheckGit\<close> unfold a call into its whole body; they are
  applied where a proof asks for them.
\<close>

declare visitAndCheckGit.simps [simp del] visitAndCheckGit1.simps [simp del]

subsection \<open>Evaluating the examples\<close>

lemma ex_url_Parse_alice_scp:
  "ex_url_Parse ''alice@example.com:repo.git'' =
     Inl (URLError ''parse'' ''alice@example.com:repo.git''
            ''first path segment in URL cannot contain colon'')"
  by (simp add: ex_url_Parse_def)

lemma ex_url_Parse_alice_ssh:
  "map_sum id (\<lambda>u. Username (url_User u)) (ex_url_Parse ''ssh://alice@example.com/repo.git'') =
     Inr ''alice''"
  by (simp add: ex_url_Parse_def Username_def)

lemma ex_url_Parse_https:
  "map_sum id (\<lambda>u. Username (url_User u)) (ex_url_Parse ''https://github.com/org/repo.git'') =
     Inr []"
  by (simp add: ex_url_Parse_def Username_def)

lemma ex_env_sel:
  "maxDepth ex_env = 4"
  "rootPath ex_env = ''root''"
  "PlainOpen ex_env = (\<lambda>path.
         if path = ''root/a'' \<or> path = ''root/b/c'' \<or> path = ''root/link''
         then Inr (ex_repo ''git@github.com:org/repo.git'')
         else Inl (Err ''repository does not exist''))"
  "getSignersFromAgent ex_env = Inr [Signer ''key'']"
  "NewSSHAgentAuth ex_env = (\<lambda>user.
         Inr \<lparr>auth_User = user, auth_HostKeyCallback = DefaultHostKeyCallback\<rparr>)"
  "url_Parse ex_env = ex_url_Parse"
  "ReferenceName_Short ex_env = (\<lambda>name. if HasPrefix name ''refs/heads/'' then drop 11 name else name)"
  "filepath_Join ex_env = (\<lambda>dir name. dir @ ''/'' @ name)"
  "os_ReadDir ex_env = (\<lambda>path.
         map_sum id (map (\<lambda>(n, m). \<lparr>de_Name = n, de_Type = m AND ModeType\<rparr>)) (ex_tree path))"
  "ioutil_ReadDir ex_env = (\<lambda>path.
         map_sum id (map (\<lambda>(n, m). \<lparr>fi_Name = n, fi_Mode = m\<rparr>)) (ex_tree path))"
  by (simp_all add: ex_env_def getSignersFromAgent_def)

lemma ex_modes:
  "IsDir (ex_dir_mode AND ModeType)" "(ex_dir_mode AND ModeType) AND ModeSymlink \<noteq> ModeSymlink"
  "\<not> IsDir (ex_file_mode AND ModeType)"
  "\<not> IsDir (ex_link_mode AND ModeType)"
  "IsDir ex_dir_mode" "ex_dir_mode AND ModeSymlink \<noteq> ModeSymlink"
  "\<not> IsDir ex_file_mode"
  "\<not> IsDir ex_link_mode"
  "IsDir ModeDir" "ModeDir AND ModeSymlink \<noteq> ModeSymlink"
  by (simp_all add: IsDir_def ex_dir_mode_def ex_file_mode_def ex_link_mode_def
        ModeType_def ModeDir_def ModeSymlink_def ModeNamedPipe_def ModeSocket_def
        ModeDevice_def ModeCharDevice_def ModeIrregular_def)

lemma ex_repo_fetch_sel:
  "r_Fetch (ex_repo_fetch result) = (\<lambda>opts. result)"
  "r_Head (ex_repo_fetch result) = Inr (ex_ref ''refs/heads/main'' ''R1'')"
  "r_Reference (ex_repo_fetch result) = (\<lambda>name resolved.
         if name = ''refs/remotes/origin/main'' then Inr (ex_ref name ''R3'')
         else Inl (Err ''reference not found''))"
  by (simp_all add: ex_repo_fetch_def ex_repo_def)

lemma ex_repo_visit:
  "checkRepo ex_env path (ex_repo ''git@github.com:org/repo.git'') s =
     Returned (s\<lparr>logged := logged s @ [LogChecking path],
                 repos := repos s @ [\<lparr>Path = path, LocalChanges = 2, RemoteChanges = 2\<rparr>]\<rparr>)"
  by (simp add: checkRepo_def prepareAuth_def fetchAndCompare_def ex_env_sel ex_repo_def
        deriveUsername_def HasPrefix_def countChanges_def ex_status_def logf_def
        NewRemoteReferenceName_def ex_ref_def countRemoteChanges_def ex_commit_def
        countRemoteChanges_cb_def)

lemma ex_prepareAuth:
  "prepareAuth ex_env path (ex_repo_fetch result) =
     Proceed (2, \<lparr>auth_User = ''git'', auth_HostKeyCallback = InsecureIgnoreHostKey\<rparr>)"
  by (simp add: prepareAuth_def ex_env_sel ex_repo_def ex_repo_fetch_def
        deriveUsername_def HasPrefix_def countChanges_def ex_status_def)

lemma main_walk_ex_env:
  "main_walk ex_env =
     Returned \<lparr>repos = [\<lparr>Path = ''root/a'', LocalChanges = 2, RemoteChanges = 2\<rparr>,
                        \<lparr>Path = ''root/b/c'', LocalChanges = 2, RemoteChanges = 2\<rparr>],
               logged = [LogVisiting ''root'' 0, LogVisiting ''root/a'' 1, LogChecking ''root/a'',
                         LogVisiting ''root/b'' 1, LogVisiting ''root/b/c'' 2,
                         LogChecking ''root/b/c'', LogVisiting ''root/d'' 1]\<rparr>"
  by (simp add: main_walk_def visitAndCheckGit.simps ex_env_sel ex_tree_def ex_modes
        ex_repo_visit logf_def initial_state_def)

lemma main_walk1_ex_env:
  "main_walk1 ex_env =
     Returned \<lparr>repos = [\<lparr>Path = ''root/a'', LocalChanges = 2, RemoteChanges = 2\<rparr>,
                        \<lparr>Path = ''root/b/c'', LocalChanges = 2, RemoteChanges = 2\<rparr>],
               logged = [LogVisiting ''root'' 0, LogVisiting ''root/a'' 1, LogChecking ''root/a'',
                         LogVisiting ''root/b'' 1, LogVisiting ''root/b/c'' 2,
                         LogChecking ''root/b/c'', LogVisiting ''root/d'' 1]\<rparr>"
  by (simp add: main_walk1_def visitAndCheckGit1.simps ex_env_sel ex_tree_def ex_modes fi_IsDir_def
        ex_repo_visit logf_def initial_state_def)

subsection \<open>The username (claim C5)\<close>

lemma Split_byte_not_Nil: "Split_byte s sep \<noteq> []"
  by (induction s) (auto split: list.splits)

lemma Split_byte_git_prefix:
  assumes "HasPrefix remoteURL ''git@''"
  shows "length (Split_byte remoteURL (CHR ''@'')) > 1 \<and> Split_byte remoteURL (CHR ''@'') ! 0 = ''git''"
proof -
  from assms have t: "take (length ''git@'') remoteURL = ''git@''"
    unfolding HasPrefix_def .
  have "remoteURL = take (length ''git@'') remoteURL @ drop (length ''git@'') remoteURL"
    by (simp only: append_take_drop_id)
  then have "remoteURL = ''git@'' @ drop (length ''git@'') remoteURL"
    by (simp only: t)
  then obtain rest where u: "remoteURL = ''git@'' @ rest" ..
  obtain p ps where "Split_byte rest (CHR ''@'') = p # ps"
    using Split_byte_not_Nil by (cases "Split_byte rest (CHR ''@'')") auto
  then show ?thesis
    by (simp add: u)
qed

lemma originUsername_skip:
  "\<forall>rc\<in>set rs. rc_Name rc \<noteq> ''origin'' \<Longrightarrow>
   originUsername E path (rs @ rest) u = originUsername E path rest u"
  by (induction rs) simp_all

lemma originUsername_no_origin:
  "\<forall>rc\<in>set rs. rc_Name rc \<noteq> ''origin'' \<Longrightarrow> originUsername E path rs u = Proceed u"
  using originUsername_skip[of rs E path "[]" u] by simp

lemma originUsername_Abandon:
  "originUsername E path rs u = Abandon l \<Longrightarrow> \<exists>e. l = LogErrParseURL path e"
  by (induction rs arbitrary: u) (auto simp: Let_def split: if_splits list.splits sum.splits)

lemma deriveUsername_Abandon:
  "deriveUsername E path rs = Abandon l \<Longrightarrow> log_step l = Some URLParse"
  by (auto simp: deriveUsername_def split: stage.splits dest: originUsername_Abandon)

text \<open>
  What the loop computes. The remote named \<open>origin\<close> decides the username, wherever it
  stands among the remotes. The part before the first \<open>@\<close> is taken only under the
  guard \<open>strings.HasPrefix(remoteURL, "git@")\<close>, where it is always \<open>git\<close>. Every other
  URL is given to the URL parser: its error ends the visit, its user-info is the
  username, and \<open>git\<close> stands in for an empty one.
\<close>

lemma deriveUsername_of_origin:
  "(\<forall>rc\<in>set rs. rc_Name rc \<noteq> ''origin'') \<and> (\<forall>rc\<in>set rs'. rc_Name rc \<noteq> ''origin'') \<longrightarrow>
     deriveUsername E path rs = Proceed ''git'' \<and>
     deriveUsername E path (rs @ \<lparr>rc_Name = ''origin'', rc_URLs = remoteURL # others\<rparr> # rs') =
       (if HasPrefix remoteURL ''git@'' then Proceed ''git''
        else case url_Parse E remoteURL of
               Inl err \<Rightarrow> Abandon (LogErrParseURL path err)
             | Inr u \<Rightarrow>
                 Proceed (if Username (url_User u) = [] then ''git'' else Username (url_User u)))"
proof (intro impI conjI)
  assume h: "(\<forall>rc\<in>set rs. rc_Name rc \<noteq> ''origin'') \<and> (\<forall>rc\<in>set rs'. rc_Name rc \<noteq> ''origin'')"
  then have a: "\<forall>rc\<in>set rs. rc_Name rc \<noteq> ''origin''" and b: "\<forall>rc\<in>set rs'. rc_Name rc \<noteq> ''origin''"
    by simp_all
  show "deriveUsername E path rs = Proceed ''git''"
    by (simp add: deriveUsername_def originUsername_no_origin[OF a])
  show "deriveUsername E path (rs @ \<lparr>rc_Name = ''origin'', rc_URLs = remoteURL # others\<rparr> # rs') =
       (if HasPrefix remoteURL ''git@'' then Proceed ''git''
        else case url_Parse E remoteURL of
               Inl err \<Rightarrow> Abandon (LogErrParseURL path err)
             | Inr u \<Rightarrow>
                 Proceed (if Username (url_User u) = [] then ''git'' else Username (url_User u)))"
  proof (cases "HasPrefix remoteURL ''git@''")
    case True
    with Split_byte_git_prefix[OF True] show ?thesis
      by (simp add: deriveUsername_def originUsername_skip[OF a] originUsername_no_origin[OF b] Let_def)
  next
    case False
    then show ?thesis
      by (simp add: deriveUsername_def originUsername_skip[OF a] originUsername_no_origin[OF b]
               split: sum.splits)
  qed
qed

lemma deriveUsername_examples:
  "deriveUsername ex_env ''root/a''
     [\<lparr>rc_Name = ''origin'', rc_URLs = [''git@github.com:org/repo.git'']\<rparr>] = Proceed ''git''
   \<and> deriveUsername ex_env ''root/a''
     [\<lparr>rc_Name = ''origin'', rc_URLs = [''ssh://alice@example.com/repo.git'']\<rparr>] =
       Proceed ''alice''
   \<and> deriveUsername ex_env ''root/a''
     [\<lparr>rc_Name = ''origin'', rc_URLs = [''https://github.com/org/repo.git'']\<rparr>] = Proceed ''git''
   \<and> deriveUsername ex_env ''root/a''
     [\<lparr>rc_Name = ''upstream'', rc_URLs = [''ssh://bob@example.org/up.git'']\<rparr>] = Proceed ''git''
   \<and> deriveUsername ex_env ''root/a''
     [\<lparr>rc_Name = ''upstream'', rc_URLs = [''ssh://bob@example.org/up.git'']\<rparr>,
      \<lparr>rc_Name = ''origin'', rc_URLs = [''ssh://alice@example.com/repo.git'', ''git@x:y'']\<rparr>,
      \<lparr>rc_Name = ''backup'', rc_URLs = []\<rparr>] = Proceed ''alice''"
proof -
  have p: "url_Parse ex_env = ex_url_Parse"
    by (simp add: ex_env_sel)
  note t = deriveUsername_of_origin[of "[]" "[]" ex_env "''root/a''" _ "[]", simplified p, simplified]
  note t' = deriveUsername_of_origin
              [of "[\<lparr>rc_Name = ''upstream'', rc_URLs = [''ssh://bob@example.org/up.git'']\<rparr>]"
                  "[\<lparr>rc_Name = ''backup'', rc_URLs = []\<rparr>]" ex_env "''root/a''"
                  "''ssh://alice@example.com/repo.git''" "[''git@x:y'']", simplified p, simplified]
  have 1: "deriveUsername ex_env ''root/a''
     [\<lparr>rc_Name = ''origin'', rc_URLs = [''git@github.com:org/repo.git'']\<rparr>] = Proceed ''git''"
    using t[of "''git@github.com:org/repo.git''"] by (simp add: HasPrefix_def)
  have 2: "deriveUsername ex_env ''root/a''
     [\<lparr>rc_Name = ''origin'', rc_URLs = [''ssh://alice@example.com/repo.git'']\<rparr>] =
       Proceed ''alice''"
    using t[of "''ssh://alice@example.com/repo.git''"] ex_url_Parse_alice_ssh
    by (auto simp add: HasPrefix_def split: sum.splits)
  have 3: "deriveUsername ex_env ''root/a''
     [\<lparr>rc_Name = ''origin'', rc_URLs = [''https://github.com/org/repo.git'']\<rparr>] = Proceed ''git''"
    using t[of "''https://github.com/org/repo.git''"] ex_url_Parse_https
    by (auto simp add: HasPrefix_def split: sum.splits)
  have 4: "deriveUsername ex_env ''root/a''
     [\<lparr>rc_Name = ''upstream'', rc_URLs = [''ssh://bob@example.org/up.git'']\<rparr>] = Proceed ''git''"
    using t' by simp
  have 5: "deriveUsername ex_env ''root/a''
     [\<lparr>rc_Name = ''upstream'', rc_URLs = [''ssh://bob@example.org/up.git'']\<rparr>,
      \<lparr>rc_Name = ''origin'', rc_URLs = [''ssh://alice@example.com/repo.git'', ''git@x:y'']\<rparr>,
      \<lparr>rc_Name = ''backup'', rc_URLs = []\<rparr>] = Proceed ''alice''"
    using t' ex_url_Parse_alice_ssh
    by (auto simp add: HasPrefix_def split: sum.splits)
  from 1 2 3 4 5 show ?thesis by simp
qed

text \<open>
  Claim C5. The claim asks for the username \<open>alice\<close> from the SCP-like URL
  \<open>alice@example.com:repo.git\<close>. The code splits at \<open>@\<close> only behind the guard for the
  prefix \<open>git@\<close>, so this URL goes to the URL parser, which refuses a first path segment
  with a colon: no username is derived, the line "Error parsing URL" is written and the
  visit ends without a record.
\<close>

theorem scp_like_url_of_another_user_is_refused:
  "deriveUsername ex_env ''root/a''
     [\<lparr>rc_Name = ''origin'', rc_URLs = [''alice@example.com:repo.git'']\<rparr>] =
     Abandon (LogErrParseURL ''root/a''
                (URLError ''parse'' ''alice@example.com:repo.git''
                   ''first path segment in URL cannot contain colon''))
   \<and> checkRepo ex_env ''root/a'' (ex_repo ''alice@example.com:repo.git'') initial_state =
     Returned \<lparr>repos = [],
               logged = [LogChecking ''root/a'',
                         LogErrParseURL ''root/a''
                           (URLError ''parse'' ''alice@example.com:repo.git''
                              ''first path segment in URL cannot contain colon'')]\<rparr>"
  by (simp add: deriveUsername_def ex_env_sel ex_url_Parse_alice_scp HasPrefix_def
                checkRepo_def prepareAuth_def ex_repo_def logf_def initial_state_def)

subsection \<open>The fetch (claim C7)\<close>

lemma prepareAuth_Fetch_update [simp]:
  "prepareAuth E path (r\<lparr>r_Fetch := f\<rparr>) = prepareAuth E path r"
  by (simp add: prepareAuth_def cong: sum.case_cong if_cong)

lemma countRemoteChanges_Fetch_update [simp]:
  "countRemoteChanges (r\<lparr>r_Fetch := f\<rparr>) headRef remoteRef = countRemoteChanges r headRef remoteRef"
  by (simp add: countRemoteChanges_def)

lemma fetchAndCompare_after_fetch:
  assumes "r_Fetch r \<lparr>fo_RemoteName = ''origin'', fo_Auth = auth\<rparr> = None
           \<or> r_Fetch r \<lparr>fo_RemoteName = ''origin'', fo_Auth = auth\<rparr> = Some NoErrAlreadyUpToDate"
  shows "fetchAndCompare E path r auth = fetchAndCompare E path (r\<lparr>r_Fetch := \<lambda>opts. None\<rparr>) auth"
  using assms by (auto simp: fetchAndCompare_def cong: sum.case_cong)

lemma fetchAndCompare_fetch_error:
  assumes "r_Fetch r \<lparr>fo_RemoteName = ''origin'', fo_Auth = auth\<rparr> = Some e" "e \<noteq> NoErrAlreadyUpToDate"
  shows "fetchAndCompare E path r auth = Abandon (LogErrFetch path e)"
  using assms by (simp add: fetchAndCompare_def)

lemma fetchAndCompare_success:
  assumes "r_Fetch r \<lparr>fo_RemoteName = ''origin'', fo_Auth = auth\<rparr> = None
           \<or> r_Fetch r \<lparr>fo_RemoteName = ''origin'', fo_Auth = auth\<rparr> = Some NoErrAlreadyUpToDate"
    and "r_Head r = Inr headRef"
    and "r_Reference r (NewRemoteReferenceName ''origin'' (ReferenceName_Short E (ref_Name headRef))) True = Inr remoteRef"
    and "fst (countRemoteChanges r headRef remoteRef) = Inr n"
  shows "fetchAndCompare E path r auth = Proceed n"
  using assms by (auto simp: fetchAndCompare_def)

text \<open>
  Claim C7. In a visit that reaches the fetch, a fetch that returns
  \<open>NoErrAlreadyUpToDate\<close> has the same outcome as a fetch that returns no error: the
  visit goes on with HEAD, the remote-tracking reference and \<open>countRemoteChanges\<close>, and
  when these succeed the record is appended. Every other fetch error ends the visit with
  the line "Error fetching from origin" and no record.
\<close>

theorem fetch_already_up_to_date_is_success:
  assumes "prepareAuth E path r = Proceed (localChanges, auth)"
  shows
    "(r_Fetch r \<lparr>fo_RemoteName = ''origin'', fo_Auth = auth\<rparr> = Some NoErrAlreadyUpToDate \<longrightarrow>
        checkRepo E path r s = checkRepo E path (r\<lparr>r_Fetch := \<lambda>opts. None\<rparr>) s \<and>
        (\<forall>headRef remoteRef n.
           r_Head r = Inr headRef \<and>
           r_Reference r (NewRemoteReferenceName ''origin''
                            (ReferenceName_Short E (ref_Name headRef))) True = Inr remoteRef \<and>
           fst (countRemoteChanges r headRef remoteRef) = Inr n \<longrightarrow>
           checkRepo E path r s =
             Returned (s\<lparr>logged := logged s @ [LogChecking path],
                         repos := repos s @
                           [\<lparr>Path = path, LocalChanges = localChanges, RemoteChanges = n\<rparr>]\<rparr>)))
     \<and> (\<forall>e. r_Fetch r \<lparr>fo_RemoteName = ''origin'', fo_Auth = auth\<rparr> = Some e \<and>
             e \<noteq> NoErrAlreadyUpToDate \<longrightarrow>
             checkRepo E path r s =
               Returned (s\<lparr>logged := logged s @ [LogChecking path, LogErrFetch path e]\<rparr>))"
proof (intro conjI impI allI)
  assume f: "r_Fetch r \<lparr>fo_RemoteName = ''origin'', fo_Auth = auth\<rparr> = Some NoErrAlreadyUpToDate"
  show "checkRepo E path r s = checkRepo E path (r\<lparr>r_Fetch := \<lambda>opts. None\<rparr>) s"
    using assms fetchAndCompare_after_fetch[of r auth E path] f
    by (simp add: checkRepo_def)
next
  fix headRef remoteRef n
  assume f: "r_Fetch r \<lparr>fo_RemoteName = ''origin'', fo_Auth = auth\<rparr> = Some NoErrAlreadyUpToDate"
    and h: "r_Head r = Inr headRef \<and>
           r_Reference r (NewRemoteReferenceName ''origin''
                            (ReferenceName_Short E (ref_Name headRef))) True = Inr remoteRef \<and>
           fst (countRemoteChanges r headRef remoteRef) = Inr n"
  have "fetchAndCompare E path r auth = Proceed n"
    using fetchAndCompare_success[of r auth headRef E remoteRef n path] f h by simp
  then show "checkRepo E path r s =
             Returned (s\<lparr>logged := logged s @ [LogChecking path],
                         repos := repos s @
                           [\<lparr>Path = path, LocalChanges = localChanges, RemoteChanges = n\<rparr>]\<rparr>)"
    using assms by (simp add: checkRepo_def logf_def)
next
  fix e
  assume "r_Fetch r \<lparr>fo_RemoteName = ''origin'', fo_Auth = auth\<rparr> = Some e \<and> e \<noteq> NoErrAlreadyUpToDate"
  then have "fetchAndCompare E path r auth = Abandon (LogErrFetch path e)"
    using fetchAndCompare_fetch_error by simp
  then show "checkRepo E path r s =
               Returned (s\<lparr>logged := logged s @ [LogChecking path, LogErrFetch path e]\<rparr>)"
    using assms by (simp add: checkRepo_def logf_def)
qed

theorem fetch_already_up_to_date_is_success_witness:
  "prepareAuth ex_env ''root/a'' (ex_repo_fetch (Some NoErrAlreadyUpToDate)) =
     Proceed (2, \<lparr>auth_User = ''git'', auth_HostKeyCallback = InsecureIgnoreHostKey\<rparr>)
   \<and> checkRepo ex_env ''root/a'' (ex_repo_fetch (Some NoErrAlreadyUpToDate)) initial_state =
       checkRepo ex_env ''root/a'' (ex_repo_fetch None) initial_state
   \<and> checkRepo ex_env ''root/a'' (ex_repo_fetch (Some NoErrAlreadyUpToDate)) initial_state =
       Returned \<lparr>repos = [\<lparr>Path = ''root/a'', LocalChanges = 2, RemoteChanges = 2\<rparr>],
                 logged = [LogChecking ''root/a'']\<rparr>
   \<and> checkRepo ex_env ''root/a'' (ex_repo_fetch (Some (Err ''ssh: handshake failed'')))
         initial_state =
       Returned \<lparr>repos = [],
                 logged = [LogChecking ''root/a'',
                           LogErrFetch ''root/a'' (Err ''ssh: handshake failed'')]\<rparr>"
proof -
  let ?auth = "\<lparr>auth_User = ''git'', auth_HostKeyCallback = InsecureIgnoreHostKey\<rparr>"
  have u: "(ex_repo_fetch (Some NoErrAlreadyUpToDate))\<lparr>r_Fetch := \<lambda>opts. None\<rparr> = ex_repo_fetch None"
    by (simp add: ex_repo_fetch_def)
  have h: "r_Head (ex_repo_fetch (Some NoErrAlreadyUpToDate)) = Inr (ex_ref ''refs/heads/main'' ''R1'')"
    and rr: "r_Reference (ex_repo_fetch (Some NoErrAlreadyUpToDate))
          (NewRemoteReferenceName ''origin''
             (ReferenceName_Short ex_env (ref_Name (ex_ref ''refs/heads/main'' ''R1'')))) True =
          Inr (ex_ref ''refs/remotes/origin/main'' ''R3'')"
    and c: "fst (countRemoteChanges (ex_repo_fetch (Some NoErrAlreadyUpToDate))
                  (ex_ref ''refs/heads/main'' ''R1'') (ex_ref ''refs/remotes/origin/main'' ''R3'')) = Inr 2"
    by (simp_all add: ex_repo_fetch_def ex_repo_def ex_env_sel NewRemoteReferenceName_def
          ex_ref_def HasPrefix_def countRemoteChanges_def ex_commit_def countRemoteChanges_cb_def)
  note t1 = fetch_already_up_to_date_is_success
              [OF ex_prepareAuth[of "''root/a''" "Some NoErrAlreadyUpToDate"], of initial_state]
  note t2 = fetch_already_up_to_date_is_success
              [OF ex_prepareAuth[of "''root/a''" "Some (Err ''ssh: handshake failed'')"],
               of initial_state]
  have f1: "r_Fetch (ex_repo_fetch (Some NoErrAlreadyUpToDate))
              \<lparr>fo_RemoteName = ''origin'', fo_Auth = ?auth\<rparr> = Some NoErrAlreadyUpToDate"
    by (simp add: ex_repo_fetch_def)
  have f2: "r_Fetch (ex_repo_fetch (Some (Err ''ssh: handshake failed'')))
              \<lparr>fo_RemoteName = ''origin'', fo_Auth = ?auth\<rparr> = Some (Err ''ssh: handshake failed'')"
    by (simp add: ex_repo_fetch_def)
  note t1' = t1[THEN conjunct1, THEN mp, OF f1]
  from t1'[THEN conjunct1]
  have a: "checkRepo ex_env ''root/a'' (ex_repo_fetch (Some NoErrAlreadyUpToDate)) initial_state =
       checkRepo ex_env ''root/a'' (ex_repo_fetch None) initial_state"
    by (simp only: u)
  from t1'[THEN conjunct2, rule_format, of "ex_ref ''refs/heads/main'' ''R1''"
             "ex_ref ''refs/remotes/origin/main'' ''R3''" 2] h rr c
  have b: "checkRepo ex_env ''root/a'' (ex_repo_fetch (Some NoErrAlreadyUpToDate)) initial_state =
       Returned \<lparr>repos = [\<lparr>Path = ''root/a'', LocalChanges = 2, RemoteChanges = 2\<rparr>],
                 logged = [LogChecking ''root/a'']\<rparr>"
    by (simp add: initial_state_def)
  from t2[THEN conjunct2, rule_format, of "Err ''ssh: handshake failed''"] f2
  have e: "checkRepo ex_env ''root/a'' (ex_repo_fetch (Some (Err ''ssh: handshake failed'')))
         initial_state =
       Returned \<lparr>repos = [],
                 logged = [LogChecking ''root/a'',
                           LogErrFetch ''root/a'' (Err ''ssh: handshake failed'')]\<rparr>"
    by (simp add: initial_state_def)
  from ex_prepareAuth a b e show ?thesis by simp
qed

subsection \<open>A failing step (claim C6)\<close>

lemma failing_step_after_fetch_Abandon:
  assumes "failing_step_after_fetch E r = Some st"
    and "r_Fetch r \<lparr>fo_RemoteName = ''origin'', fo_Auth = auth\<rparr> = None
         \<or> r_Fetch r \<lparr>fo_RemoteName = ''origin'', fo_Auth = auth\<rparr> = Some NoErrAlreadyUpToDate"
  shows "\<exists>l. log_step l = Some st \<and> fetchAndCompare E path r auth = Abandon l"
  using assms
  by (auto simp: failing_step_after_fetch_def fetchAndCompare_def split: sum.splits)

lemma failing_step_stage:
  assumes "failing_step E path r = Some st" and "st \<noteq> OriginFirstURL"
  shows "(\<exists>l. log_step l = Some st \<and> prepareAuth E path r = Abandon l) \<or>
         (\<exists>lc auth l. prepareAuth E path r = Proceed (lc, auth) \<and> log_step l = Some st \<and>
            fetchAndCompare E path r auth = Abandon l)"
proof (cases "prepareAuth E path r")
  case (Proceed x)
  obtain lc auth where x: "x = (lc, auth)" by (cases x)
  from Proceed x obtain auth0 where
      a: "auth = auth0\<lparr>auth_HostKeyCallback := InsecureIgnoreHostKey\<rparr>"
      and fs: "failing_step E path r =
        (case r_Fetch r \<lparr>fo_RemoteName = ''origin'', fo_Auth = auth\<rparr> of
           None \<Rightarrow> failing_step_after_fetch E r
         | Some e \<Rightarrow> if e = NoErrAlreadyUpToDate then failing_step_after_fetch E r
                     else Some FetchOrigin)"
    by (auto simp: prepareAuth_def failing_step_def Let_def
             split: sum.splits if_splits stage.splits)
  show ?thesis
  proof (cases "r_Fetch r \<lparr>fo_RemoteName = ''origin'', fo_Auth = auth\<rparr>")
    case None
    with fs assms have "failing_step_after_fetch E r = Some st" by simp
    from failing_step_after_fetch_Abandon[OF this, of auth path] None Proceed x
    show ?thesis by auto
  next
    case (Some e)
    show ?thesis
    proof (cases "e = NoErrAlreadyUpToDate")
      case True
      with fs assms Some have "failing_step_after_fetch E r = Some st" by simp
      from failing_step_after_fetch_Abandon[OF this, of auth path] Some True Proceed x
      show ?thesis by auto
    next
      case False
      with fs assms Some have "st = FetchOrigin" by simp
      moreover have "fetchAndCompare E path r auth = Abandon (LogErrFetch path e)"
        using fetchAndCompare_fetch_error[OF Some False] .
      ultimately show ?thesis using Proceed x by auto
    qed
  qed
next
  case (Abandon l)
  with assms have "log_step l = Some st"
    by (auto simp: prepareAuth_def failing_step_def Let_def
             split: sum.splits if_splits stage.splits dest: deriveUsername_Abandon)
  with Abandon show ?thesis by simp
next
  case Panic
  with assms show ?thesis
    by (auto simp: prepareAuth_def failing_step_def Let_def
             split: sum.splits if_splits stage.splits)
qed

lemma checkRepo_failing_step:
  assumes "failing_step E path r = Some st" and "st \<noteq> OriginFirstURL"
  shows "\<exists>l. log_step l = Some st \<and>
             checkRepo E path r s = Returned (s\<lparr>logged := logged s @ [LogChecking path, l]\<rparr>)"
  using failing_step_stage[OF assms]
  by (auto simp: checkRepo_def logf_def)

text \<open>
  The steps that fail with an error value. When such a step of the visit of an opened
  repository fails, the call returns with the two lines "Visiting path" and "Checking
  path" and the log line of that step appended, and with \<open>repos\<close> exactly as it was; the
  loop of the caller then goes on with the next directory entry from that state. Both
  hold for part_000 and part_001.
\<close>

lemma error_return_records_nothing:
  assumes "PlainOpen E path = Inr r" and "depth \<le> maxDepth E"
    and "failing_step E path r = Some st" and "st \<noteq> OriginFirstURL"
  shows "\<exists>l s'. log_step l = Some st
           \<and> s' = s\<lparr>logged := logged s @ [LogVisiting path depth, LogChecking path, l]\<rparr>
           \<and> repos s' = repos s
           \<and> visitAndCheckGit E path depth s = Returned s'
           \<and> visitAndCheckGit1 E path depth s = Returned s'
           \<and> (\<forall>dir f files.
                 filepath_Join E dir (de_Name f) = path \<and> IsDir (de_Type f)
                 \<and> de_Type f AND ModeSymlink \<noteq> ModeSymlink \<longrightarrow>
                 visitFiles E dir (depth - 1) (f # files) s = visitFiles E dir (depth - 1) files s')
           \<and> (\<forall>dir f files.
                 filepath_Join E dir (fi_Name f) = path \<and> fi_IsDir f
                 \<and> fi_Mode f AND ModeSymlink \<noteq> ModeSymlink \<longrightarrow>
                 visitFiles1 E dir (depth - 1) (f # files) s = visitFiles1 E dir (depth - 1) files s')"
proof -
  from checkRepo_failing_step[OF assms(3,4), of "logf (LogVisiting path depth) s"]
  obtain l where l: "log_step l = Some st"
    and c: "checkRepo E path r (logf (LogVisiting path depth) s) =
              Returned (s\<lparr>logged := logged s @ [LogVisiting path depth, LogChecking path, l]\<rparr>)"
    by (auto simp: logf_def)
  define s' where "s' = s\<lparr>logged := logged s @ [LogVisiting path depth, LogChecking path, l]\<rparr>"
  have v: "visitAndCheckGit E path depth s = Returned s'"
    using assms(1,2) c by (simp add: visitAndCheckGit.simps s'_def)
  have v1: "visitAndCheckGit1 E path depth s = Returned s'"
    using assms(1,2) c by (simp add: visitAndCheckGit1.simps s'_def)
  have "repos s' = repos s"
    by (simp add: s'_def)
  moreover have "\<forall>dir f files.
                 filepath_Join E dir (de_Name f) = path \<and> IsDir (de_Type f)
                 \<and> de_Type f AND ModeSymlink \<noteq> ModeSymlink \<longrightarrow>
                 visitFiles E dir (depth - 1) (f # files) s = visitFiles E dir (depth - 1) files s'"
    using v by simp
  moreover have "\<forall>dir f files.
                 filepath_Join E dir (fi_Name f) = path \<and> fi_IsDir f
                 \<and> fi_Mode f AND ModeSymlink \<noteq> ModeSymlink \<longrightarrow>
                 visitFiles1 E dir (depth - 1) (f # files) s = visitFiles1 E dir (depth - 1) files s'"
    using v1 by simp
  ultimately show ?thesis
    using l v v1 s'_def by blast
qed

lemma ex_env_fetch_fails_sel:
  "maxDepth ex_env_fetch_fails = 4"
  "rootPath ex_env_fetch_fails = ''root''"
  "PlainOpen ex_env_fetch_fails = (\<lambda>path.
          if path = ''root/a'' then Inr (ex_repo_fetch (Some (Err ''ssh: handshake failed'')))
          else if path = ''root/b/c'' then Inr (ex_repo ''git@github.com:org/repo.git'')
          else Inl (Err ''repository does not exist''))"
  "filepath_Join ex_env_fetch_fails = (\<lambda>dir name. dir @ ''/'' @ name)"
  "os_ReadDir ex_env_fetch_fails = os_ReadDir ex_env"
  "ioutil_ReadDir ex_env_fetch_fails = ioutil_ReadDir ex_env"
  by (simp_all add: ex_env_fetch_fails_def ex_env_sel)

lemma originUsername_PlainOpen_update:
  "originUsername (E\<lparr>PlainOpen := f\<rparr>) path rs u = originUsername E path rs u"
  by (induction rs arbitrary: u) (simp_all add: Let_def cong: sum.case_cong list.case_cong if_cong)

lemma checkRepo_PlainOpen_update:
  "checkRepo (E\<lparr>PlainOpen := f\<rparr>) path r s = checkRepo E path r s"
  by (simp add: checkRepo_def prepareAuth_def fetchAndCompare_def getSignersFromAgent_def
        deriveUsername_def originUsername_PlainOpen_update
        cong: sum.case_cong stage.case_cong if_cong)

lemma checkRepo_ex_env_fetch_fails:
  "checkRepo ex_env_fetch_fails path r s = checkRepo ex_env path r s"
  by (simp add: ex_env_fetch_fails_def checkRepo_PlainOpen_update)

lemma ex_failing_step:
  "failing_step ex_env_fetch_fails ''root/a'' (ex_repo_fetch (Some (Err ''ssh: handshake failed''))) =
     Some FetchOrigin"
  by (simp add: failing_step_def ex_env_fetch_fails_def ex_env_def getSignersFromAgent_def
        ex_repo_def ex_repo_fetch_def deriveUsername_def HasPrefix_def)

lemma error_return_records_nothing_example:
  "PlainOpen ex_env_fetch_fails ''root/a'' =
     Inr (ex_repo_fetch (Some (Err ''ssh: handshake failed'')))
   \<and> 1 \<le> maxDepth ex_env_fetch_fails
   \<and> failing_step ex_env_fetch_fails ''root/a''
        (ex_repo_fetch (Some (Err ''ssh: handshake failed''))) = Some FetchOrigin
   \<and> (\<exists>l. log_step l = Some FetchOrigin \<and>
         visitAndCheckGit ex_env_fetch_fails ''root/a'' 1 initial_state =
           Returned \<lparr>repos = [],
                     logged = [LogVisiting ''root/a'' 1, LogChecking ''root/a'', l]\<rparr>)
   \<and> main_walk ex_env_fetch_fails =
       Returned \<lparr>repos = [\<lparr>Path = ''root/b/c'', LocalChanges = 2, RemoteChanges = 2\<rparr>],
                 logged = [LogVisiting ''root'' 0, LogVisiting ''root/a'' 1,
                           LogChecking ''root/a'',
                           LogErrFetch ''root/a'' (Err ''ssh: handshake failed''),
                           LogVisiting ''root/b'' 1, LogVisiting ''root/b/c'' 2,
                           LogChecking ''root/b/c'', LogVisiting ''root/d'' 1]\<rparr>"
proof -
  have o: "PlainOpen ex_env_fetch_fails ''root/a'' =
             Inr (ex_repo_fetch (Some (Err ''ssh: handshake failed'')))"
    by (simp add: ex_env_fetch_fails_sel)
  have d: "1 \<le> maxDepth ex_env_fetch_fails"
    by (simp add: ex_env_fetch_fails_sel)
  from error_return_records_nothing[OF o d ex_failing_step, of initial_state]
  have v: "\<exists>l. log_step l = Some FetchOrigin \<and>
         visitAndCheckGit ex_env_fetch_fails ''root/a'' 1 initial_state =
           Returned \<lparr>repos = [],
                     logged = [LogVisiting ''root/a'' 1, LogChecking ''root/a'', l]\<rparr>"
    by (auto simp: initial_state_def)
  have f: "checkRepo ex_env path (ex_repo_fetch (Some (Err ''ssh: handshake failed''))) s =
             Returned (s\<lparr>logged := logged s @
               [LogChecking path, LogErrFetch path (Err ''ssh: handshake failed'')]\<rparr>)"
    for path s
    by (simp add: checkRepo_def ex_prepareAuth fetchAndCompare_def ex_repo_fetch_sel logf_def)
  have w: "main_walk ex_env_fetch_fails =
       Returned \<lparr>repos = [\<lparr>Path = ''root/b/c'', LocalChanges = 2, RemoteChanges = 2\<rparr>],
                 logged = [LogVisiting ''root'' 0, LogVisiting ''root/a'' 1,
                           LogChecking ''root/a'',
                           LogErrFetch ''root/a'' (Err ''ssh: handshake failed''),
                           LogVisiting ''root/b'' 1, LogVisiting ''root/b/c'' 2,
                           LogChecking ''root/b/c'', LogVisiting ''root/d'' 1]\<rparr>"
    by (simp add: main_walk_def visitAndCheckGit.simps ex_env_fetch_fails_sel ex_env_sel
          ex_tree_def ex_modes checkRepo_ex_env_fetch_fails ex_repo_visit f logf_def
          initial_state_def)
  from o d ex_failing_step v w show ?thesis by simp
qed

text \<open>
  The step that fails without an error value. \<open>URLs[0]\<close> of an \<open>origin\<close> without URL is
  an index out of range: the visit panics after the line "Checking path".
\<close>

lemma checkRepo_origin_without_url:
  assumes "failing_step E path r = Some OriginFirstURL"
  shows "checkRepo E path r s = Panicked (logf (LogChecking path) s)"
proof -
  have "prepareAuth E path r = Panic"
    using assms
    by (auto simp: prepareAuth_def failing_step_def failing_step_after_fetch_def Let_def
             split: sum.splits if_splits stage.splits option.splits)
  then show ?thesis
    by (simp add: checkRepo_def)
qed

lemma ex_env_origin_without_url_sel:
  "maxDepth ex_env_origin_without_url = 4"
  "rootPath ex_env_origin_without_url = ''root''"
  "PlainOpen ex_env_origin_without_url = (\<lambda>path.
          if path = ''root/a'' then Inr (ex_repo ''git@github.com:org/repo.git'')
          else if path = ''root/b/c'' then Inr ex_repo_origin_without_url
          else Inl (Err ''repository does not exist''))"
  "filepath_Join ex_env_origin_without_url = (\<lambda>dir name. dir @ ''/'' @ name)"
  "os_ReadDir ex_env_origin_without_url = os_ReadDir ex_env"
  "ioutil_ReadDir ex_env_origin_without_url = ioutil_ReadDir ex_env"
  by (simp_all add: ex_env_origin_without_url_def ex_env_sel)

lemma checkRepo_ex_env_origin_without_url:
  "checkRepo ex_env_origin_without_url path r s = checkRepo ex_env path r s"
  by (simp add: ex_env_origin_without_url_def checkRepo_PlainOpen_update)

lemma ex_failing_step_origin_without_url:
  "failing_step ex_env_origin_without_url ''root/b/c'' ex_repo_origin_without_url =
     Some OriginFirstURL"
  by (simp add: failing_step_def ex_env_origin_without_url_def ex_env_def
        getSignersFromAgent_def ex_repo_def ex_repo_origin_without_url_def deriveUsername_def)

text \<open>
  Claim C6. The claim does not hold of the code. Every step that returns an error is
  handled as the claim says, by the lemma above; but the first URL of the remote
  \<open>origin\<close> is read as \<open>URLs[0]\<close> with no check of the length (part_000 line 93, part_001
  line 122). In the tree \<open>root/{a, b/c, d}\<close> where \<open>root/a\<close> is a sound repository and the
  \<open>origin\<close> of \<open>root/b/c\<close> has no URL, this step of the visit of \<open>root/b/c\<close> fails: the
  program panics, in both variants. The walk ends there, \<open>root/d\<close> is never visited, and
  the record of \<open>root/a\<close>, appended before, is never printed.
\<close>

theorem origin_without_url_ends_the_walk:
  "failing_step ex_env_origin_without_url ''root/b/c'' ex_repo_origin_without_url =
     Some OriginFirstURL
   \<and> main_walk ex_env_origin_without_url =
       Panicked \<lparr>repos = [\<lparr>Path = ''root/a'', LocalChanges = 2, RemoteChanges = 2\<rparr>],
                 logged = [LogVisiting ''root'' 0, LogVisiting ''root/a'' 1,
                           LogChecking ''root/a'', LogVisiting ''root/b'' 1,
                           LogVisiting ''root/b/c'' 2, LogChecking ''root/b/c'']\<rparr>
   \<and> main_walk1 ex_env_origin_without_url = main_walk ex_env_origin_without_url
   \<and> main_report ex_env_origin_without_url = None
   \<and> main_report1 ex_env_origin_without_url = None"
proof -
  have p: "checkRepo ex_env path ex_repo_origin_without_url s =
             Panicked (logf (LogChecking path) s)" for path s
    using checkRepo_origin_without_url[OF ex_failing_step_origin_without_url, of s]
    by (simp add: checkRepo_def prepareAuth_def ex_env_sel ex_repo_def
          ex_repo_origin_without_url_def deriveUsername_def countChanges_def ex_status_def)
  have w: "main_walk ex_env_origin_without_url =
       Panicked \<lparr>repos = [\<lparr>Path = ''root/a'', LocalChanges = 2, RemoteChanges = 2\<rparr>],
                 logged = [LogVisiting ''root'' 0, LogVisiting ''root/a'' 1,
                           LogChecking ''root/a'', LogVisiting ''root/b'' 1,
                           LogVisiting ''root/b/c'' 2, LogChecking ''root/b/c'']\<rparr>"
    by (simp add: main_walk_def visitAndCheckGit.simps ex_env_origin_without_url_sel ex_env_sel
          ex_tree_def ex_modes checkRepo_ex_env_origin_without_url ex_repo_visit p logf_def
          initial_state_def)
  have w1: "main_walk1 ex_env_origin_without_url =
       Panicked \<lparr>repos = [\<lparr>Path = ''root/a'', LocalChanges = 2, RemoteChanges = 2\<rparr>],
                 logged = [LogVisiting ''root'' 0, LogVisiting ''root/a'' 1,
                           LogChecking ''root/a'', LogVisiting ''root/b'' 1,
                           LogVisiting ''root/b/c'' 2, LogChecking ''root/b/c'']\<rparr>"
    by (simp add: main_walk1_def visitAndCheckGit1.simps ex_env_origin_without_url_sel ex_env_sel
          ex_tree_def ex_modes fi_IsDir_def checkRepo_ex_env_origin_without_url ex_repo_visit p
          logf_def initial_state_def)
  from ex_failing_step_origin_without_url w w1 show ?thesis
    by (simp add: main_report_def main_report1_def)
qed

subsection \<open>The depth bound (claim C8)\<close>

lemma visit_beyond_depth:
  "maxDepth E < depth \<Longrightarrow> visitAndCheckGit E path depth s = Returned s"
  "maxDepth E < depth \<Longrightarrow> visitAndCheckGit1 E path depth s = Returned s"
  by (simp_all add: visitAndCheckGit.simps visitAndCheckGit1.simps)

lemma visitFiles_at_max:
  "maxDepth E \<le> depth \<Longrightarrow> visitFiles E path depth files s = Returned s"
  by (induction files) (simp_all add: visit_beyond_depth)

lemma visitFiles1_at_max:
  "maxDepth E \<le> depth \<Longrightarrow> visitFiles1 E path depth files s = Returned s"
  by (induction files) (simp_all add: visit_beyond_depth)

lemma visit_at_max_not_repo:
  assumes "maxDepth E = depth" "PlainOpen E path = Inl e"
  shows "\<exists>s'. visitAndCheckGit E path depth s = Returned s' \<and> repos s' = repos s"
    and "\<exists>s'. visitAndCheckGit1 E path depth s = Returned s' \<and> repos s' = repos s"
  using assms
  by (auto simp: visitAndCheckGit.simps visitAndCheckGit1.simps visitFiles_at_max visitFiles1_at_max logf_def
           split: sum.splits)

text \<open>
  Claim C8. A call at a depth above \<open>maxDepth\<close> returns at once and changes nothing. With
  \<open>maxDepth\<close> 0 and a root that does not open as a repository, the walk returns with no
  result record, whatever lies below the root. Both hold for part_000 and part_001.
\<close>

theorem depth_bound:
  "(maxDepth E < depth \<longrightarrow>
      visitAndCheckGit E path depth s = Returned s \<and> visitAndCheckGit1 E path depth s = Returned s)
   \<and> (maxDepth E = 0 \<and> PlainOpen E (rootPath E) = Inl e \<longrightarrow>
        (\<exists>s'. main_walk E = Returned s' \<and> repos s' = []) \<and>
        (\<exists>s'. main_walk1 E = Returned s' \<and> repos s' = []))"
proof (intro conjI impI)
  assume "maxDepth E < depth"
  then show "visitAndCheckGit E path depth s = Returned s"
    and "visitAndCheckGit1 E path depth s = Returned s"
    by (simp_all add: visit_beyond_depth)
next
  assume h: "maxDepth E = 0 \<and> PlainOpen E (rootPath E) = Inl e"
  from visit_at_max_not_repo(1)[of E 0 "rootPath E" e initial_state] h
  show "\<exists>s'. main_walk E = Returned s' \<and> repos s' = []"
    by (simp add: main_walk_def initial_state_def)
  from visit_at_max_not_repo(2)[of E 0 "rootPath E" e initial_state] h
  show "\<exists>s'. main_walk1 E = Returned s' \<and> repos s' = []"
    by (simp add: main_walk1_def initial_state_def)
qed

theorem depth_bound_witness:
  "maxDepth ex_env < 5
   \<and> visitAndCheckGit ex_env ''root/a'' 5 initial_state = Returned initial_state
   \<and> visitAndCheckGit1 ex_env ''root/a'' 5 initial_state = Returned initial_state
   \<and> maxDepth ex_env_depth0 = 0
   \<and> PlainOpen ex_env_depth0 (rootPath ex_env_depth0) = Inl (Err ''repository does not exist'')
   \<and> PlainOpen ex_env_depth0 ''root/a'' = Inr (ex_repo ''git@github.com:org/repo.git'')
   \<and> (\<exists>s'. main_walk ex_env_depth0 = Returned s' \<and> repos s' = [])
   \<and> (\<exists>s'. main_walk1 ex_env_depth0 = Returned s' \<and> repos s' = [])"
  using depth_bound[of ex_env 5 "''root/a''" initial_state]
        depth_bound[of ex_env_depth0 _ _ _ "Err ''repository does not exist''"]
  by (simp add: ex_env_depth0_def ex_env_sel)

subsection \<open>Symbolic links (claim C9)\<close>

lemma visits_append: "visits (a @ b) = visits a @ visits b"
  by (induction a rule: visits.induct) simp_all

lemma visitFiles_filter:
  "visitFiles E path depth
     (filter (\<lambda>f. IsDir (de_Type f) \<and> de_Type f AND ModeSymlink \<noteq> ModeSymlink) files) s =
   visitFiles E path depth files s"
  by (induction files arbitrary: s) (simp_all split: outcome.splits)

lemma visitFiles1_filter:
  "visitFiles1 E path depth
     (filter (\<lambda>f. fi_IsDir f \<and> fi_Mode f AND ModeSymlink \<noteq> ModeSymlink) files) s =
   visitFiles1 E path depth files s"
  by (induction files arbitrary: s) (simp_all split: outcome.splits)

lemma visits_within_logf_visit:
  "visits_within R s \<Longrightarrow> R p \<Longrightarrow> visits_within R (logf (LogVisiting p d) s)"
  by (auto simp: visits_within_def logf_def visits_append)

lemma visits_within_logf_other:
  "visits_within R s \<Longrightarrow> visits [l] = [] \<Longrightarrow> visits_within R (logf l s)"
  by (auto simp: visits_within_def logf_def visits_append)

lemma visits_log_step: "log_step l = Some st \<Longrightarrow> visits [l] = []"
  by (cases l) simp_all

lemma prepareAuth_Abandon_no_visit: "prepareAuth E path r = Abandon l \<Longrightarrow> visits [l] = []"
  by (auto simp: prepareAuth_def Let_def deriveUsername_def
           split: sum.splits if_splits stage.splits dest: originUsername_Abandon)

lemma fetchAndCompare_Abandon_no_visit: "fetchAndCompare E path r auth = Abandon l \<Longrightarrow> visits [l] = []"
  by (auto simp: fetchAndCompare_def Let_def split: sum.splits if_splits)

lemma checkRepo_visits:
  "visits (logged (state_of (checkRepo E path r s))) = visits (logged s)"
  by (auto simp: checkRepo_def logf_def visits_append Let_def
           split: stage.splits prod.splits
           dest: prepareAuth_Abandon_no_visit fetchAndCompare_Abandon_no_visit)

lemma checkRepo_visits_within:
  "visits_within R s \<Longrightarrow> visits_within R (state_of (checkRepo E path r s))"
  by (simp add: visits_within_def checkRepo_visits)

lemma walk_visits_within:
  "reach E root path \<Longrightarrow> visits_within (reach E root) s \<Longrightarrow>
     visits_within (reach E root) (state_of (visitAndCheckGit E path depth s))"
  "reach E root path \<Longrightarrow> os_ReadDir E path = Inr all \<Longrightarrow> set files \<subseteq> set all \<Longrightarrow>
     visits_within (reach E root) s \<Longrightarrow>
     visits_within (reach E root) (state_of (visitFiles E path depth files s))"
proof (induction E path depth s and E path depth files s
       arbitrary: and all rule: visitAndCheckGit_visitFiles.induct)
  case (1 E path depth s)
  show ?case
  proof (cases "maxDepth E < depth")
    case True
    with 1 show ?thesis by (simp add: visitAndCheckGit.simps)
  next
    case False
    have s1: "visits_within (reach E root) (logf (LogVisiting path depth) s)"
      using 1 by (simp add: visits_within_logf_visit)
    show ?thesis
    proof (cases "PlainOpen E path")
      case (Inr r)
      with False s1 show ?thesis
        by (simp add: visitAndCheckGit.simps checkRepo_visits_within)
    next
      case (Inl e)
      show ?thesis
      proof (cases "os_ReadDir E path")
        case (Inl err)
        with False \<open>PlainOpen E path = Inl e\<close> s1 show ?thesis
          by (simp add: visitAndCheckGit.simps visits_within_logf_other)
      next
        case (Inr files)
        from "1.IH"[OF False \<open>PlainOpen E path = Inl e\<close> Inr "1.prems"(1) Inr _ s1]
        show ?thesis
          using False \<open>PlainOpen E path = Inl e\<close> Inr by (simp add: visitAndCheckGit.simps)
      qed
    qed
  qed
next
  case (2 E path depth s)
  then show ?case by simp
next
  case (3 E path depth f files s)
  show ?case
  proof (cases "IsDir (de_Type f) \<and> de_Type f AND ModeSymlink \<noteq> ModeSymlink")
    case True
    have fin: "f \<in> set all" using "3.prems" by simp
    have r: "reach E root (filepath_Join E path (de_Name f))"
      using reach_entry[OF "3.prems"(1,2) fin] True by simp
    have child: "visits_within (reach E root)
                   (state_of (visitAndCheckGit E (filepath_Join E path (de_Name f)) (depth + 1) s))"
      using "3.IH"(1)[OF True r "3.prems"(4)] .
    show ?thesis
    proof (cases "visitAndCheckGit E (filepath_Join E path (de_Name f)) (depth + 1) s")
      case (Returned s')
      from "3.IH"(2)[OF True Returned "3.prems"(1,2)] "3.prems"(3) child Returned
      show ?thesis using True by simp
    next
      case (Panicked s')
      with child True show ?thesis by simp
    qed
  next
    case False
    have e: "visitFiles E path depth (f # files) s = visitFiles E path depth files s"
      using False by auto
    from "3.IH"(3)[OF False "3.prems"(1,2)] "3.prems"(3,4)
    have "visits_within (reach E root) (state_of (visitFiles E path depth files s))"
      by simp
    then show ?thesis by (simp only: e)
  qed
qed

lemma walk1_visits_within:
  "reach1 E root path \<Longrightarrow> visits_within (reach1 E root) s \<Longrightarrow>
     visits_within (reach1 E root) (state_of (visitAndCheckGit1 E path depth s))"
  "reach1 E root path \<Longrightarrow> ioutil_ReadDir E path = Inr all \<Longrightarrow> set files \<subseteq> set all \<Longrightarrow>
     visits_within (reach1 E root) s \<Longrightarrow>
     visits_within (reach1 E root) (state_of (visitFiles1 E path depth files s))"
proof (induction E path depth s and E path depth files s
       arbitrary: and all rule: visitAndCheckGit1_visitFiles1.induct)
  case (1 E path depth s)
  show ?case
  proof (cases "maxDepth E < depth")
    case True
    with 1 show ?thesis by (simp add: visitAndCheckGit1.simps)
  next
    case False
    have s1: "visits_within (reach1 E root) (logf (LogVisiting path depth) s)"
      using 1 by (simp add: visits_within_logf_visit)
    show ?thesis
    proof (cases "PlainOpen E path")
      case (Inr r)
      with False s1 show ?thesis
        by (simp add: visitAndCheckGit1.simps checkRepo_visits_within)
    next
      case (Inl e)
      show ?thesis
      proof (cases "ioutil_ReadDir E path")
        case (Inl err)
        with False \<open>PlainOpen E path = Inl e\<close> s1 show ?thesis
          by (simp add: visitAndCheckGit1.simps visits_within_logf_other)
      next
        case (Inr files)
        from "1.IH"[OF False \<open>PlainOpen E path = Inl e\<close> Inr "1.prems"(1) Inr _ s1]
        show ?thesis
          using False \<open>PlainOpen E path = Inl e\<close> Inr by (simp add: visitAndCheckGit1.simps)
      qed
    qed
  qed
next
  case (2 E path depth s)
  then show ?case by simp
next
  case (3 E path depth f files s)
  show ?case
  proof (cases "fi_IsDir f \<and> fi_Mode f AND ModeSymlink \<noteq> ModeSymlink")
    case True
    have fin: "f \<in> set all" using "3.prems" by simp
    have r: "reach1 E root (filepath_Join E path (fi_Name f))"
      using reach1_entry[OF "3.prems"(1,2) fin] True by simp
    have child: "visits_within (reach1 E root)
                   (state_of (visitAndCheckGit1 E (filepath_Join E path (fi_Name f)) (depth + 1) s))"
      using "3.IH"(1)[OF True r "3.prems"(4)] .
    show ?thesis
    proof (cases "visitAndCheckGit1 E (filepath_Join E path (fi_Name f)) (depth + 1) s")
      case (Returned s')
      from "3.IH"(2)[OF True Returned "3.prems"(1,2)] "3.prems"(3) child Returned
      show ?thesis using True by simp
    next
      case (Panicked s')
      with child True show ?thesis by simp
    qed
  next
    case False
    have e: "visitFiles1 E path depth (f # files) s = visitFiles1 E path depth files s"
      using False by auto
    from "3.IH"(3)[OF False "3.prems"(1,2)] "3.prems"(3,4)
    have "visits_within (reach1 E root) (state_of (visitFiles1 E path depth files s))"
      by simp
    then show ?thesis by (simp only: e)
  qed
qed

lemma visits_within_initial: "visits_within R initial_state"
  by (simp add: visits_within_def initial_state_def)

text \<open>
  Claim C9. In both variants the loop over a listing does exactly what it does on the
  listing without the entries that are not directories or are symbolic links: for such
  an entry nothing is called, whatever its path would open as. Throughout a walk, every
  path visited is arrived at from the root through entries that are directories and not
  symbolic links.
\<close>

theorem symlinks_never_visited:
  "visitFiles E path depth files s =
     visitFiles E path depth
       (filter (\<lambda>f. IsDir (de_Type f) \<and> de_Type f AND ModeSymlink \<noteq> ModeSymlink) files) s
   \<and> visitFiles1 E path depth infos s =
     visitFiles1 E path depth
       (filter (\<lambda>f. fi_IsDir f \<and> fi_Mode f AND ModeSymlink \<noteq> ModeSymlink) infos) s
   \<and> (\<forall>q d. (q, d) \<in> set (visits (logged (state_of (main_walk E)))) \<longrightarrow>
              reach E (rootPath E) q)
   \<and> (\<forall>q d. (q, d) \<in> set (visits (logged (state_of (main_walk1 E)))) \<longrightarrow>
              reach1 E (rootPath E) q)"
proof (intro conjI allI impI)
  show "visitFiles E path depth files s =
     visitFiles E path depth
       (filter (\<lambda>f. IsDir (de_Type f) \<and> de_Type f AND ModeSymlink \<noteq> ModeSymlink) files) s"
    by (simp only: visitFiles_filter)
  show "visitFiles1 E path depth infos s =
     visitFiles1 E path depth
       (filter (\<lambda>f. fi_IsDir f \<and> fi_Mode f AND ModeSymlink \<noteq> ModeSymlink) infos) s"
    by (simp only: visitFiles1_filter)
next
  fix q d
  assume "(q, d) \<in> set (visits (logged (state_of (main_walk E))))"
  moreover have "visits_within (reach E (rootPath E)) (state_of (main_walk E))"
    unfolding main_walk_def
    by (rule walk_visits_within(1)[OF reach_root visits_within_initial])
  ultimately show "reach E (rootPath E) q"
    by (auto simp: visits_within_def list_all_iff)
next
  fix q d
  assume "(q, d) \<in> set (visits (logged (state_of (main_walk1 E))))"
  moreover have "visits_within (reach1 E (rootPath E)) (state_of (main_walk1 E))"
    unfolding main_walk1_def
    by (rule walk1_visits_within(1)[OF reach1_root visits_within_initial])
  ultimately show "reach1 E (rootPath E) q"
    by (auto simp: visits_within_def list_all_iff)
qed

theorem symlinks_never_visited_witness:
  "PlainOpen ex_env ''root/link'' = Inr (ex_repo ''git@github.com:org/repo.git'')
   \<and> visits (logged (state_of (main_walk ex_env))) =
       [(''root'', 0), (''root/a'', 1), (''root/b'', 1), (''root/b/c'', 2), (''root/d'', 1)]
   \<and> visits (logged (state_of (main_walk1 ex_env))) =
       [(''root'', 0), (''root/a'', 1), (''root/b'', 1), (''root/b/c'', 2), (''root/d'', 1)]
   \<and> reach ex_env ''root'' ''root/b/c''
   \<and> reach1 ex_env ''root'' ''root/b/c''
   \<and> visitFiles ex_env ''root'' 0 [\<lparr>de_Name = ''link'', de_Type = ex_link_mode AND ModeType\<rparr>]
        initial_state = Returned initial_state
   \<and> visitFiles1 ex_env ''root'' 0 [\<lparr>fi_Name = ''link'', fi_Mode = ex_link_mode\<rparr>]
        initial_state = Returned initial_state"
proof -
  note t = symlinks_never_visited[of ex_env "''root''" 0
             "[\<lparr>de_Name = ''link'', de_Type = ex_link_mode AND ModeType\<rparr>]" initial_state
             "[\<lparr>fi_Name = ''link'', fi_Mode = ex_link_mode\<rparr>]"]
  have v: "visits (logged (state_of (main_walk ex_env))) =
       [(''root'', 0), (''root/a'', 1), (''root/b'', 1), (''root/b/c'', 2), (''root/d'', 1)]"
    and v1: "visits (logged (state_of (main_walk1 ex_env))) =
       [(''root'', 0), (''root/a'', 1), (''root/b'', 1), (''root/b/c'', 2), (''root/d'', 1)]"
    by (simp_all add: main_walk_ex_env main_walk1_ex_env)
  from t v have r: "reach ex_env ''root'' ''root/b/c''"
    by (simp add: ex_env_sel)
  from t v1 have r1: "reach1 ex_env ''root'' ''root/b/c''"
    by (simp add: ex_env_sel)
  from t have f: "visitFiles ex_env ''root'' 0 [\<lparr>de_Name = ''link'', de_Type = ex_link_mode AND ModeType\<rparr>]
        initial_state = Returned initial_state"
    and f1: "visitFiles1 ex_env ''root'' 0 [\<lparr>fi_Name = ''link'', fi_Mode = ex_link_mode\<rparr>]
        initial_state = Returned initial_state"
    by (simp_all add: ex_modes fi_IsDir_def)
  from v v1 r r1 f f1 show ?thesis
    by (simp add: ex_env_sel)
qed

subsection \<open>The two variants (claim C10)\<close>

lemma ModeType_Dir: "(m AND ModeType) AND ModeDir = m AND ModeDir"
proof -
  have "ModeType AND ModeDir = ModeDir"
    by (simp add: ModeType_def ModeDir_def ModeSymlink_def ModeNamedPipe_def ModeSocket_def
                  ModeDevice_def ModeCharDevice_def ModeIrregular_def)
  then show ?thesis
    by (simp add: and.assoc)
qed

lemma ModeType_Symlink: "(m AND ModeType) AND ModeSymlink = m AND ModeSymlink"
proof -
  have "ModeType AND ModeSymlink = ModeSymlink"
    by (simp add: ModeType_def ModeDir_def ModeSymlink_def ModeNamedPipe_def ModeSocket_def
                  ModeDevice_def ModeCharDevice_def ModeIrregular_def)
  then show ?thesis
    by (simp add: and.assoc)
qed

lemma filter_agree:
  assumes "de_Type d = fi_Mode f AND ModeType"
  shows "(IsDir (de_Type d) \<and> de_Type d AND ModeSymlink \<noteq> ModeSymlink) =
         (fi_IsDir f \<and> fi_Mode f AND ModeSymlink \<noteq> ModeSymlink)"
  by (simp add: assms IsDir_def fi_IsDir_def ModeType_Dir ModeType_Symlink)

lemma same_walk_Returned: "same_walk (Returned a) (Returned b) = same_visits_and_records a b"
  by (simp add: same_walk_def same_visits_and_records_def)

lemma same_walk_Panicked: "same_walk (Panicked a) (Panicked b) = same_visits_and_records a b"
  by (simp add: same_walk_def same_visits_and_records_def)

lemma same_walk_mixed:
  "\<not> same_walk (Returned a) (Panicked b)" "\<not> same_walk (Panicked a) (Returned b)"
  by (simp_all add: same_walk_def)

lemma same_state_logf: "same_visits_and_records a b \<Longrightarrow> same_visits_and_records (logf l a) (logf l b)"
  by (simp add: same_visits_and_records_def logf_def visits_append)

lemma same_state_logf_other: "same_visits_and_records a b \<Longrightarrow> visits [l] = [] \<Longrightarrow> visits [l'] = [] \<Longrightarrow> same_visits_and_records (logf l a) (logf l' b)"
  by (simp add: same_visits_and_records_def logf_def visits_append)

lemma checkRepo_same:
  "same_visits_and_records a b \<Longrightarrow> same_walk (checkRepo E path r a) (checkRepo E path r b)"
  by (auto simp: checkRepo_def Let_def same_walk_Returned same_walk_Panicked same_state_logf
           split: stage.splits)
     (simp add: same_visits_and_records_def logf_def visits_append)

lemma listings_agree_Inl:
  assumes "listings_agree E" "os_ReadDir E path = Inl err"
  shows "\<exists>err'. ioutil_ReadDir E path = Inl err'"
proof -
  from assms(1) have "case os_ReadDir E path of
               Inl _ \<Rightarrow> (case ioutil_ReadDir E path of Inl _ \<Rightarrow> True | Inr _ \<Rightarrow> False)
             | Inr des \<Rightarrow>
                 (case ioutil_ReadDir E path of
                    Inl _ \<Rightarrow> False
                  | Inr fis \<Rightarrow> entries_agree des fis)"
    unfolding listings_agree_def by (rule spec)
  with assms(2) show ?thesis
    by (cases "ioutil_ReadDir E path") simp_all
qed

lemma listings_agree_Inr:
  assumes "listings_agree E" "os_ReadDir E path = Inr des"
  shows "\<exists>fis. ioutil_ReadDir E path = Inr fis \<and> entries_agree des fis"
proof -
  from assms(1) have "case os_ReadDir E path of
               Inl _ \<Rightarrow> (case ioutil_ReadDir E path of Inl _ \<Rightarrow> True | Inr _ \<Rightarrow> False)
             | Inr des \<Rightarrow>
                 (case ioutil_ReadDir E path of
                    Inl _ \<Rightarrow> False
                  | Inr fis \<Rightarrow> entries_agree des fis)"
    unfolding listings_agree_def by (rule spec)
  with assms(2) show ?thesis
    by (cases "ioutil_ReadDir E path") simp_all
qed

lemma walks_same:
  "listings_agree E \<Longrightarrow> same_visits_and_records s s' \<Longrightarrow>
     same_walk (visitAndCheckGit E path depth s) (visitAndCheckGit1 E path depth s')"
  "listings_agree E \<Longrightarrow> entries_agree files fis \<Longrightarrow> same_visits_and_records s s' \<Longrightarrow>
     same_walk (visitFiles E path depth files s) (visitFiles1 E path depth fis s')"
proof (induction E path depth s and E path depth files s
       arbitrary: s' and fis s' rule: visitAndCheckGit_visitFiles.induct)
  case (1 E path depth s)
  show ?case
  proof (cases "maxDepth E < depth")
    case True
    with 1 show ?thesis
      by (simp add: visitAndCheckGit.simps visitAndCheckGit1.simps same_walk_Returned)
  next
    case False
    have s1: "same_visits_and_records (logf (LogVisiting path depth) s) (logf (LogVisiting path depth) s')"
      using "1.prems" by (simp add: same_state_logf)
    show ?thesis
    proof (cases "PlainOpen E path")
      case (Inr r)
      with False s1 show ?thesis
        by (simp add: visitAndCheckGit.simps visitAndCheckGit1.simps checkRepo_same)
    next
      case (Inl e)
      note po = this
      show ?thesis
      proof (cases "os_ReadDir E path")
        case (Inl err)
        with "1.prems"(1) obtain err' where i: "ioutil_ReadDir E path = Inl err'"
          using listings_agree_Inl by blast
        from False po Inl i s1 show ?thesis
          by (simp add: visitAndCheckGit.simps visitAndCheckGit1.simps same_walk_Returned
                        same_state_logf_other)
      next
        case (Inr des)
        with "1.prems"(1) obtain fis where i: "ioutil_ReadDir E path = Inr fis"
          and a: "entries_agree des fis"
          using listings_agree_Inr by blast
        from "1.IH"[OF False po Inr "1.prems"(1) a s1] False po Inr i
        show ?thesis
          by (simp add: visitAndCheckGit.simps visitAndCheckGit1.simps)
      qed
    qed
  qed
next
  case (2 E path depth s)
  then show ?case
    by (simp add: entries_agree_def same_walk_Returned)
next
  case (3 E path depth f files s)
  from "3.prems"(2) obtain g gs where fis: "fis = g # gs"
    and fg: "de_Name f = fi_Name g" "de_Type f = fi_Mode g AND ModeType"
    and rest: "entries_agree files gs"
    by (auto simp: entries_agree_def list_all2_Cons1)
  show ?case
  proof (cases "IsDir (de_Type f) \<and> de_Type f AND ModeSymlink \<noteq> ModeSymlink")
    case True
    then have True1: "fi_IsDir g \<and> fi_Mode g AND ModeSymlink \<noteq> ModeSymlink"
      using filter_agree[OF fg(2)] by simp
    let ?c = "visitAndCheckGit E (filepath_Join E path (de_Name f)) (depth + 1) s"
    let ?c1 = "visitAndCheckGit1 E (filepath_Join E path (fi_Name g)) (depth + 1) s'"
    have child: "same_walk ?c ?c1"
      using "3.IH"(1)[OF True "3.prems"(1,3)] fg(1) by simp
    show ?thesis
    proof (cases ?c)
      case (Returned x)
      with child obtain x' where r1: "?c1 = Returned x'" and sx: "same_visits_and_records x x'"
        by (cases ?c1) (auto simp: same_walk_Returned same_walk_mixed)
      from "3.IH"(2)[OF True Returned "3.prems"(1) rest sx] Returned r1 True True1
      show ?thesis by (simp add: fis)
    next
      case (Panicked x)
      with child obtain x' where r1: "?c1 = Panicked x'" and sx: "same_visits_and_records x x'"
        by (cases ?c1) (auto simp: same_walk_Panicked same_walk_mixed)
      from Panicked r1 sx True True1 show ?thesis
        by (simp add: fis same_walk_Panicked)
    qed
  next
    case False
    then have False1: "\<not> (fi_IsDir g \<and> fi_Mode g AND ModeSymlink \<noteq> ModeSymlink)"
      using filter_agree[OF fg(2)] by simp
    have e: "visitFiles E path depth (f # files) s = visitFiles E path depth files s"
      using False by auto
    have e1: "visitFiles1 E path depth (g # gs) s' = visitFiles1 E path depth gs s'"
      using False1 by auto
    from "3.IH"(3)[OF False "3.prems"(1) rest "3.prems"(3)]
    show ?thesis by (simp only: e e1 fis)
  qed
qed

text \<open>
  Claim C10, as the code has it. In an environment in which the two listing calls agree
  on every directory, the walkers of part_000 and part_001 are the same walk from every
  path, depth and state: both return or both panic, with the same visits in the same
  order and the same result records in the same order.
\<close>

theorem variants_same_walk_when_listings_agree:
  assumes "listings_agree E"
  shows "same_walk (visitAndCheckGit E path depth s) (visitAndCheckGit1 E path depth s)
         \<and> same_walk (main_walk E) (main_walk1 E)"
  using walks_same(1)[OF assms, of s s path depth]
        walks_same(1)[OF assms, of initial_state initial_state "rootPath E" 0]
  by (simp add: same_visits_and_records_def main_walk_def main_walk1_def)

lemma listings_agree_ex_env: "listings_agree ex_env"
  unfolding listings_agree_def
proof
  fix path
  show "case os_ReadDir ex_env path of
          Inl _ \<Rightarrow> (case ioutil_ReadDir ex_env path of Inl _ \<Rightarrow> True | Inr _ \<Rightarrow> False)
        | Inr des \<Rightarrow>
            (case ioutil_ReadDir ex_env path of
               Inl _ \<Rightarrow> False
             | Inr fis \<Rightarrow> entries_agree des fis)"
    by (cases "ex_tree path")
       (simp_all add: ex_env_sel entries_agree_def list_all2_map1 list_all2_map2
          list_all2_same split_beta)
qed

theorem variants_same_walk_when_listings_agree_witness:
  "listings_agree ex_env
   \<and> same_walk (main_walk ex_env) (main_walk1 ex_env)
   \<and> main_walk ex_env = main_walk1 ex_env
   \<and> repos (state_of (main_walk ex_env)) =
       [\<lparr>Path = ''root/a'', LocalChanges = 2, RemoteChanges = 2\<rparr>,
        \<lparr>Path = ''root/b/c'', LocalChanges = 2, RemoteChanges = 2\<rparr>]"
  using variants_same_walk_when_listings_agree[OF listings_agree_ex_env, of "''root''" 0 initial_state]
        listings_agree_ex_env
  by (simp add: main_walk_ex_env main_walk1_ex_env)

lemma ex_env_unsearchable_sel:
  "maxDepth ex_env_unsearchable = 4"
  "rootPath ex_env_unsearchable = ''root''"
  "PlainOpen ex_env_unsearchable = (\<lambda>path. Inl (Err ''repository does not exist''))"
  "filepath_Join ex_env_unsearchable = (\<lambda>dir name. dir @ ''/'' @ name)"
  "os_ReadDir ex_env_unsearchable = (\<lambda>path.
           if path = ''root'' then Inr [\<lparr>de_Name = ''sub'', de_Type = ModeDir\<rparr>]
           else Inl (Err ''permission denied''))"
  "ioutil_ReadDir ex_env_unsearchable = (\<lambda>path. Inl (Err ''permission denied''))"
  by (simp_all add: ex_env_unsearchable_def ex_env_sel)

text \<open>
  Claim C10 as stated quantifies over every filesystem state. In a directory that can be
  read but not searched the two listing calls differ: part_000 lists \<open>root\<close> and visits
  \<open>root/sub\<close>, part_001 fails to list \<open>root\<close> and visits nothing below it.
\<close>

theorem variants_differ_counterexample:
  "visits (logged (state_of (main_walk ex_env_unsearchable))) = [(''root'', 0), (''root/sub'', 1)]
   \<and> visits (logged (state_of (main_walk1 ex_env_unsearchable))) = [(''root'', 0)]
   \<and> \<not> same_walk (main_walk ex_env_unsearchable) (main_walk1 ex_env_unsearchable)"
  by (simp add: main_walk_def main_walk1_def visitAndCheckGit.simps visitAndCheckGit1.simps
        ex_env_unsearchable_sel ex_modes logf_def initial_state_def same_walk_def
        same_visits_and_records_def)

end
